theory Spec2Isabelle
  imports Main "HOL-Library.Word"
begin

section \<open>Strings\<close>

text \<open>
  Paths, file names, hashes, commit messages and error messages are modelled as HOL
  strings. The program inspects them only through ASCII characters (the separator
  \<open>/\<close>, the extensions, the ignored and preferred names), so \<open>toLowerCase\<close> lowers
  the letters \<open>A\<close> to \<open>Z\<close> and leaves every other character as it is. File text and its
  base64 transport form are sequences of UTF-16 code units (\<open>jsstring\<close>, below).
\<close>

definition toLowerCaseChar :: "char \<Rightarrow> char" where
  "toLowerCaseChar c =
     (if 65 \<le> (of_char c :: nat) \<and> (of_char c :: nat) \<le> 90
      then (case c of Char b0 b1 b2 b3 b4 b5 b6 b7 \<Rightarrow> Char b0 b1 b2 b3 b4 True b6 b7)
      else c)"

definition toLowerCase :: "string \<Rightarrow> string" where
  "toLowerCase s = map toLowerCaseChar s"

definition startsWith :: "'a list \<Rightarrow> 'a list \<Rightarrow> bool" where
  "startsWith s p = (take (length p) s = p)"

definition endsWith :: "'a list \<Rightarrow> 'a list \<Rightarrow> bool" where
  "endsWith s p = (length p \<le> length s \<and> drop (length s - length p) s = p)"

fun str_includes :: "'a list \<Rightarrow> 'a list \<Rightarrow> bool" where
  "str_includes [] p = (p = [])"
| "str_includes (c # cs) p = (startsWith (c # cs) p \<or> str_includes cs p)"

text \<open>\<open>s.split(c)\<close> for a one-character separator: the result is never empty.\<close>

fun split :: "'a list \<Rightarrow> 'a \<Rightarrow> 'a list list" where
  "split [] c = [[]]"
| "split (x # xs) c =
     (if x = c then [] # split xs c
      else (case split xs c of [] \<Rightarrow> [[x]] | w # ws \<Rightarrow> (x # w) # ws))"

text \<open>\<open>s.split('/').pop()\<close>: the last path segment.\<close>

definition lastSegment :: "string \<Rightarrow> string" where
  "lastSegment s = last (split s CHR ''/'')"

text \<open>Decimal rendering of a number inside a template string.\<close>

definition digit :: "nat \<Rightarrow> char" where
  "digit n = ''0123456789'' ! n"

function show_nat :: "nat \<Rightarrow> string" where
  "show_nat n = (if n < 10 then [digit n] else show_nat (n div 10) @ [digit (n mod 10)])"
  by pat_completeness auto
termination
  by (relation "measure id") auto

declare show_nat.simps [simp del]

section \<open>File text and its transport encoding\<close>

text \<open>
  A JavaScript string is a sequence of 16-bit code units, a \<open>Uint8Array\<close> a sequence of
  bytes. \<open>TextEncoder\<close>, \<open>TextDecoder\<close>, \<open>btoa\<close> and \<open>atob\<close> belong to the browser; they
  are written out here after the WHATWG Encoding and HTML standards, on natural numbers,
  and wrapped to the word types.
\<close>

type_synonym jsstring = "16 word list"
type_synonym Uint8Array = "8 word list"

definition js :: "string \<Rightarrow> jsstring" where
  "js s = map (\<lambda>c. of_nat (of_char c)) s"

definition isHighSurrogate :: "nat \<Rightarrow> bool" where
  "isHighSurrogate u = (0xD800 \<le> u \<and> u \<le> 0xDBFF)"

definition isLowSurrogate :: "nat \<Rightarrow> bool" where
  "isLowSurrogate u = (0xDC00 \<le> u \<and> u \<le> 0xDFFF)"

definition isSurrogate :: "nat \<Rightarrow> bool" where
  "isSurrogate u = (0xD800 \<le> u \<and> u \<le> 0xDFFF)"

text \<open>Code units to scalar values: a surrogate pair is one code point, an unpaired
  surrogate becomes U+FFFD.\<close>

fun codePoints :: "nat list \<Rightarrow> nat list" where
  "codePoints [] = []"
| "codePoints [u] = [if isSurrogate u then 0xFFFD else u]"
| "codePoints (u # v # us) =
     (if isHighSurrogate u \<and> isLowSurrogate v
      then (0x10000 + (u - 0xD800) * 0x400 + (v - 0xDC00)) # codePoints us
      else (if isSurrogate u then 0xFFFD else u) # codePoints (v # us))"

definition utf8 :: "nat \<Rightarrow> nat list" where
  "utf8 c =
     (if c < 0x80 then [c]
      else if c < 0x800 then [0xC0 + c div 64, 0x80 + c mod 64]
      else if c < 0x10000 then [0xE0 + c div 4096, 0x80 + (c div 64) mod 64, 0x80 + c mod 64]
      else [0xF0 + c div 262144, 0x80 + (c div 4096) mod 64, 0x80 + (c div 64) mod 64,
            0x80 + c mod 64])"

definition TextEncoder_encode :: "jsstring \<Rightarrow> Uint8Array" where
  "TextEncoder_encode str = map of_nat (concat (map utf8 (codePoints (map unat str))))"

text \<open>The UTF-8 decoder of the Encoding standard: the code point under construction, the
  continuation bytes still needed and the bounds of the next byte are the state. A byte
  outside the bounds yields U+FFFD and is read again in the initial state.\<close>

function utf8_decode :: "nat \<Rightarrow> nat \<Rightarrow> nat \<Rightarrow> nat \<Rightarrow> nat list \<Rightarrow> nat list" where
  "utf8_decode cp need lo hi [] = (if need \<noteq> 0 then [0xFFFD] else [])"
| "utf8_decode cp need lo hi (b # bs) =
     (if need = 0 then
        (if b \<le> 0x7F then b # utf8_decode 0 0 0x80 0xBF bs
         else if 0xC2 \<le> b \<and> b \<le> 0xDF then utf8_decode (b mod 32) 1 0x80 0xBF bs
         else if 0xE0 \<le> b \<and> b \<le> 0xEF
           then utf8_decode (b mod 16) 2 (if b = 0xE0 then 0xA0 else 0x80)
                  (if b = 0xED then 0x9F else 0xBF) bs
         else if 0xF0 \<le> b \<and> b \<le> 0xF4
           then utf8_decode (b mod 8) 3 (if b = 0xF0 then 0x90 else 0x80)
                  (if b = 0xF4 then 0x8F else 0xBF) bs
         else 0xFFFD # utf8_decode 0 0 0x80 0xBF bs)
      else if b < lo \<or> hi < b then 0xFFFD # utf8_decode 0 0 0x80 0xBF (b # bs)
      else if need = 1 then (cp * 64 + b mod 64) # utf8_decode 0 0 0x80 0xBF bs
      else utf8_decode (cp * 64 + b mod 64) (need - 1) 0x80 0xBF bs)"
  by pat_completeness auto
termination
  by (relation "measure (\<lambda>(cp, need, lo, hi, bs). 2 * length bs + (if need = 0 then 0 else 1))")
     auto

definition utf16 :: "nat \<Rightarrow> nat list" where
  "utf16 c =
     (if c < 0x10000 then [c]
      else [0xD800 + (c - 0x10000) div 0x400, 0xDC00 + (c - 0x10000) mod 0x400])"

text \<open>\<open>new TextDecoder('utf-8').decode(bytes)\<close>: errors are replaced, not raised, and,
  \<open>ignoreBOM\<close> being left at its default, a byte order mark at the start is dropped.\<close>

definition stripBOM :: "nat list \<Rightarrow> nat list" where
  "stripBOM cps = (case cps of [] \<Rightarrow> [] | c # cs \<Rightarrow> if c = 0xFEFF then cs else c # cs)"

definition TextDecoder_decode :: "Uint8Array \<Rightarrow> jsstring" where
  "TextDecoder_decode bytes =
     map of_nat (concat (map utf16 (stripBOM (utf8_decode 0 0 0x80 0xBF (map unat bytes)))))"

subsection \<open>Base64\<close>

text \<open>The alphabet \<open>A\<close>-\<open>Z\<close>, \<open>a\<close>-\<open>z\<close>, \<open>0\<close>-\<open>9\<close>, \<open>+\<close>, \<open>/\<close> by character
  code, and its inverse.\<close>

definition sextet :: "nat \<Rightarrow> nat" where
  "sextet n =
     (if n < 26 then 0x41 + n
      else if n < 52 then 0x61 + (n - 26)
      else if n < 62 then 0x30 + (n - 52)
      else if n = 62 then 0x2B
      else 0x2F)"

definition sextetValue :: "nat \<Rightarrow> nat option" where
  "sextetValue u =
     (if 0x41 \<le> u \<and> u \<le> 0x5A then Some (u - 0x41)
      else if 0x61 \<le> u \<and> u \<le> 0x7A then Some (u - 0x61 + 26)
      else if 0x30 \<le> u \<and> u \<le> 0x39 then Some (u - 0x30 + 52)
      else if u = 0x2B then Some 62
      else if u = 0x2F then Some 63
      else None)"

fun encodeGroups :: "nat list \<Rightarrow> nat list" where
  "encodeGroups [] = []"
| "encodeGroups [a] = [sextet (a div 4), sextet ((a mod 4) * 16), 0x3D, 0x3D]"
| "encodeGroups [a, b] =
     [sextet (a div 4), sextet ((a mod 4) * 16 + b div 16), sextet ((b mod 16) * 4), 0x3D]"
| "encodeGroups (a # b # c # r) =
     [sextet (a div 4), sextet ((a mod 4) * 16 + b div 16),
      sextet ((b mod 16) * 4 + c div 64), sextet (c mod 64)] @ encodeGroups r"

datatype error = Error string

text \<open>\<open>btoa\<close> takes a binary string and raises when a code unit exceeds 255.\<close>

definition btoa :: "jsstring \<Rightarrow> error + jsstring" where
  "btoa binary =
     (if \<exists>u \<in> set binary. 255 < unat u then Inl (Error ''InvalidCharacterError'')
      else Inr (map of_nat (encodeGroups (map unat binary))))"

text \<open>\<open>atob\<close> is the forgiving base64 decoder: ASCII whitespace is removed, one or two
  padding characters are removed when the length is a multiple of four, a remainder of
  one and any character outside the alphabet are errors, and the bits left over at the
  end are dropped.\<close>

definition isAsciiWhitespace :: "nat \<Rightarrow> bool" where
  "isAsciiWhitespace u = (u = 0x09 \<or> u = 0x0A \<or> u = 0x0C \<or> u = 0x0D \<or> u = 0x20)"

definition removePadding :: "nat list \<Rightarrow> nat list" where
  "removePadding d =
     (if length d mod 4 = 0 then
        (if 2 \<le> length d \<and> last d = 0x3D \<and> last (butlast d) = 0x3D then butlast (butlast d)
         else if 1 \<le> length d \<and> last d = 0x3D then butlast d
         else d)
      else d)"

fun sextetValues :: "nat list \<Rightarrow> nat list option" where
  "sextetValues [] = Some []"
| "sextetValues (u # us) =
     (case sextetValue u of
        None \<Rightarrow> None
      | Some v \<Rightarrow> (case sextetValues us of None \<Rightarrow> None | Some vs \<Rightarrow> Some (v # vs)))"

fun decodeGroups :: "nat list \<Rightarrow> nat list" where
  "decodeGroups (p # q # r # s # rest) =
     [p * 4 + q div 16, (q mod 16) * 16 + r div 4, (r mod 4) * 64 + s] @ decodeGroups rest"
| "decodeGroups [p, q, r] = [p * 4 + q div 16, (q mod 16) * 16 + r div 4]"
| "decodeGroups [p, q] = [p * 4 + q div 16]"
| "decodeGroups [p] = []"
| "decodeGroups [] = []"

definition atob :: "jsstring \<Rightarrow> error + jsstring" where
  "atob content =
     (let d = removePadding (filter (\<lambda>u. \<not> isAsciiWhitespace u) (map unat content))
      in if length d mod 4 = 1 then Inl (Error ''InvalidCharacterError'')
         else (case sextetValues d of
                 None \<Rightarrow> Inl (Error ''InvalidCharacterError'')
               | Some vs \<Rightarrow> Inr (map of_nat (decodeGroups vs))))"

subsection \<open>The program's encoder and decoder\<close>

text \<open>\<open>base64Encode\<close>: the loop appends \<open>String.fromCharCode(data[i])\<close> for every byte.\<close>

definition base64Encode :: "jsstring \<Rightarrow> error + jsstring" where
  "base64Encode str =
     (let data = TextEncoder_encode str;
          binary = map (\<lambda>b. of_nat (unat b)) data
      in btoa binary)"

text \<open>The decoding inside \<open>getFileContent\<close>, from the \<open>content\<close> and \<open>encoding\<close> fields of
  the response: the guard, \<open>atob\<close>, the loop \<open>bytes[i] = binaryString.charCodeAt(i)\<close>
  (a store into a \<open>Uint8Array\<close> keeps the low eight bits) and the UTF-8 decoder.\<close>

definition decodeContent :: "jsstring option \<Rightarrow> string option \<Rightarrow> string \<Rightarrow> error + jsstring" where
  "decodeContent content encoding failure =
     (case content of
        None \<Rightarrow> Inl (Error failure)
      | Some c \<Rightarrow>
          if c \<noteq> [] \<and> encoding = Some ''base64'' then
            (case atob c of
               Inl e \<Rightarrow> Inl e
             | Inr binaryString \<Rightarrow>
                 (let bytes = map (\<lambda>u. of_nat (unat u)) binaryString
                  in Inr (TextDecoder_decode bytes)))
          else Inl (Error failure))"

section \<open>The REST interface\<close>

text \<open>
  The JSON shapes the program reads (\<open>GithubContent\<close>, \<open>GithubRepo\<close>, the entries of a
  recursive tree response) and the one it returns from a listing (\<open>RepoTreeItem\<close>), with
  the fields the program uses.
\<close>

record GithubContent =
  gc_name :: string
  gc_path :: string
  gc_sha :: string
  gc_size :: nat
  gc_type :: string
  gc_content :: "jsstring option"
  gc_encoding :: "string option"

record GithubRepo =
  default_branch :: string

record GitTreeEntry =
  te_path :: string
  te_type :: string
  te_sha :: string
  te_size :: "nat option"

record RepoTreeItem =
  rt_path :: string
  rt_name :: string
  rt_type :: string
  rt_hasMarkdown :: "bool option"
  rt_sha :: "string option"
  rt_size :: "nat option"

datatype http_method = GET | PUT | POST | DELETE

text \<open>The endpoints below \<open>/repos/{owner}/{repo}\<close>: the repository itself,
  \<open>/contents/{path}\<close> and \<open>/git/trees/{branch}?recursive=1\<close>; and \<open>/user\<close>.\<close>

datatype endpoint = User | Repo | Contents string | Trees string

record RequestBody =
  rb_message :: string
  rb_content :: "jsstring option"
  rb_sha :: "string option"

record request =
  http_method :: http_method
  endpoint :: endpoint
  body :: "RequestBody option"

datatype payload =
    FileData GithubContent
  | ContentList "GithubContent list"
  | RepoData GithubRepo
  | TreeData "GitTreeEntry list" bool
  | ErrorData "string option" "string option"
  | EmptyObject

text \<open>A response: \<open>json\<close> is \<open>Inl m\<close> when the body is not JSON and \<open>response.json()\<close>
  rejects with message \<open>m\<close>.\<close>

record response =
  status :: nat
  statusText :: string
  json :: "string + payload"

definition ok :: "response \<Rightarrow> bool" where
  "ok response = (200 \<le> status response \<and> status response \<le> 299)"

text \<open>
  The backend is a parameter: it answers a request in its current state, or not at all
  (\<open>None\<close>: \<open>fetch\<close> rejects). The world of a run holds the backend's state, the
  requests sent with their answers, the events dispatched on \<open>window\<close> and the lines
  written to the console.
\<close>

type_synonym 'r backend = "request \<Rightarrow> 'r \<Rightarrow> response option \<times> 'r"

record 'r world =
  remote :: 'r
  traffic :: "(request \<times> response option) list"
  events :: "string list"
  console :: "string list"

definition fresh :: "'r \<Rightarrow> 'r world" where
  "fresh r = \<lparr>remote = r, traffic = [], events = [], console = []\<rparr>"

definition fetch :: "'r backend \<Rightarrow> request \<Rightarrow> 'r world \<Rightarrow> response option \<times> 'r world" where
  "fetch be req w =
     (case be req (remote w) of
        (answer, r') \<Rightarrow> (answer, w\<lparr>remote := r', traffic := traffic w @ [(req, answer)]\<rparr>))"

definition dispatchEvent :: "string \<Rightarrow> 'r world \<Rightarrow> 'r world" where
  "dispatchEvent e w = w\<lparr>events := events w @ [e]\<rparr>"

definition console_log :: "string \<Rightarrow> 'r world \<Rightarrow> 'r world" where
  "console_log line w = w\<lparr>console := console w @ [line]\<rparr>"

definition message_field :: "payload \<Rightarrow> string option" where
  "message_field d = (case d of ErrorData m e \<Rightarrow> m | _ \<Rightarrow> None)"

definition error_field :: "payload \<Rightarrow> string option" where
  "error_field d = (case d of ErrorData m e \<Rightarrow> e | _ \<Rightarrow> None)"

definition sha_field :: "payload \<Rightarrow> string option" where
  "sha_field d = (case d of FileData c \<Rightarrow> Some (gc_sha c) | _ \<Rightarrow> None)"

definition name_field :: "payload \<Rightarrow> string option" where
  "name_field d = (case d of FileData c \<Rightarrow> Some (gc_name c) | _ \<Rightarrow> None)"

definition content_field :: "payload \<Rightarrow> jsstring option" where
  "content_field d = (case d of FileData c \<Rightarrow> gc_content c | _ \<Rightarrow> None)"

definition encoding_field :: "payload \<Rightarrow> string option" where
  "encoding_field d = (case d of FileData c \<Rightarrow> gc_encoding c | _ \<Rightarrow> None)"

definition default_branch_field :: "payload \<Rightarrow> string option" where
  "default_branch_field d = (case d of RepoData r \<Rightarrow> Some (default_branch r) | _ \<Rightarrow> None)"

text \<open>\<open>x || d\<close> on a string that may be undefined: the empty string is falsy.\<close>

definition orElse :: "string option \<Rightarrow> string \<Rightarrow> string" where
  "orElse x d = (case x of None \<Rightarrow> d | Some s \<Rightarrow> if s = [] then d else s)"

definition truthy :: "'a list option \<Rightarrow> bool" where
  "truthy x = (case x of None \<Rightarrow> False | Some s \<Rightarrow> s \<noteq> [])"

definition Unauthorized :: error where
  "Unauthorized = Error ''Unauthorized: Token expired or invalid.''"

definition makeRequest :: "'r backend \<Rightarrow> request \<Rightarrow> 'r world \<Rightarrow> (error + payload) \<times> 'r world" where
  "makeRequest be req w =
     (case fetch be req w of
        (None, w1) \<Rightarrow> (Inl (Error ''Failed to fetch''), w1)
      | (Some response, w1) \<Rightarrow>
          if status response = 401 then (Inl Unauthorized, dispatchEvent ''auth-error'' w1)
          else if \<not> ok response then
            (let errorData = (case json response of
                                Inl m \<Rightarrow> ErrorData (Some ''An unknown error occurred'') None
                              | Inr d \<Rightarrow> d)
             in (Inl (Error (''GitHub API Error: '' @ show_nat (status response) @ '' ''
                               @ statusText response @ '' - ''
                               @ orElse (message_field errorData) [])), w1))
          else if status response = 204 \<or> status response = 201
                  \<or> (status response = 200 \<and> http_method req = DELETE) then
            (case json response of Inl m \<Rightarrow> (Inr EmptyObject, w1) | Inr d \<Rightarrow> (Inr d, w1))
          else (case json response of Inl m \<Rightarrow> (Inl (Error m), w1) | Inr d \<Rightarrow> (Inr d, w1)))"

definition makeGiteaRequest :: "'r backend \<Rightarrow> request \<Rightarrow> 'r world \<Rightarrow> (error + payload) \<times> 'r world" where
  "makeGiteaRequest be req w =
     (case fetch be req w of
        (None, w1) \<Rightarrow> (Inl (Error ''Failed to fetch''), w1)
      | (Some response, w1) \<Rightarrow>
          if status response = 401 then (Inl Unauthorized, dispatchEvent ''auth-error'' w1)
          else if \<not> ok response then
            (let errorData = (case json response of
                                Inl m \<Rightarrow> ErrorData (Some ''An unknown Gitea/Gogs error occurred'') None
                              | Inr d \<Rightarrow> d)
             in (Inl (Error (''API Error: '' @ show_nat (status response) @ '' ''
                               @ statusText response @ '' - ''
                               @ orElse (message_field errorData)
                                   (orElse (error_field errorData) []))), w1))
          else if status response = 204 \<or> status response = 201
                  \<or> (status response = 200 \<and> (http_method req = DELETE \<or> http_method req = PUT)) then
            (case json response of Inl m \<Rightarrow> (Inr EmptyObject, w1) | Inr d \<Rightarrow> (Inr d, w1))
          else (case json response of Inl m \<Rightarrow> (Inl (Error m), w1) | Inr d \<Rightarrow> (Inr d, w1)))"

definition verifyToken :: "'r backend \<Rightarrow> 'r world \<Rightarrow> (error + payload) \<times> 'r world" where
  "verifyToken be w = makeRequest be \<lparr>http_method = GET, endpoint = User, body = None\<rparr> w"

section \<open>The adapters\<close>

text \<open>\<open>GithubAdapter\<close> and \<open>BaseGiteaAdapter\<close> (of which the Gitea and Gogs adapters are
  empty subclasses) differ in the request function and in a few branches.\<close>

datatype adapter = GithubAdapter | BaseGiteaAdapter

definition this_makeRequest ::
  "adapter \<Rightarrow> 'r backend \<Rightarrow> request \<Rightarrow> 'r world \<Rightarrow> (error + payload) \<times> 'r world" where
  "this_makeRequest ad be req w =
     (case ad of GithubAdapter \<Rightarrow> makeRequest be req w
               | BaseGiteaAdapter \<Rightarrow> makeGiteaRequest be req w)"

definition get :: "endpoint \<Rightarrow> request" where
  "get e = \<lparr>http_method = GET, endpoint = e, body = None\<rparr>"

definition getFileSha ::
  "adapter \<Rightarrow> 'r backend \<Rightarrow> string \<Rightarrow> 'r world \<Rightarrow> (error + string option) \<times> 'r world" where
  "getFileSha ad be path w =
     (case this_makeRequest ad be (get (Contents path)) w of
        (Inr fileData, w1) \<Rightarrow> (Inr (sha_field fileData), w1)
      | (Inl (Error message), w1) \<Rightarrow>
          if str_includes message ''404'' then (Inr None, w1) else (Inl (Error message), w1))"

definition getRepoDetails :: "adapter \<Rightarrow> 'r backend \<Rightarrow> 'r world \<Rightarrow> (error + payload) \<times> 'r world" where
  "getRepoDetails ad be w = this_makeRequest ad be (get Repo) w"

definition getRepoContents ::
  "adapter \<Rightarrow> 'r backend \<Rightarrow> string \<Rightarrow> 'r world \<Rightarrow> (error + payload) \<times> 'r world" where
  "getRepoContents ad be path w = this_makeRequest ad be (get (Contents path)) w"

subsection \<open>Shared implementations of \<open>BaseGitService\<close>\<close>

definition ignoredDirs :: "string list" where
  "ignoredDirs = [''node_modules'', ''.git'', ''.github'', ''dist'', ''build'', ''vendor'',
                  ''.vscode'', ''pages'', ''page'']"

definition ignoredTreeDirs :: "string list" where
  "ignoredTreeDirs = [''node_modules'', ''.git'', ''.github'', ''dist'', ''build'', ''vendor'',
                      ''.vscode'']"

text \<open>The default \<open>listFiles\<close>: one shallow listing; any failure, also a payload that is
  not an array, is caught and gives the empty list.\<close>

definition BaseGitService_listFiles ::
  "adapter \<Rightarrow> 'r backend \<Rightarrow> string \<Rightarrow> 'r world \<Rightarrow> RepoTreeItem list \<times> 'r world" where
  "BaseGitService_listFiles ad be path w =
     (case getRepoContents ad be path w of
        (Inr (ContentList contents), w1) \<Rightarrow>
          (map (\<lambda>item. \<lparr>rt_path = gc_path item, rt_name = gc_name item,
                         rt_type = (if gc_type item = ''file'' then ''file'' else ''dir''),
                         rt_hasMarkdown = None, rt_sha = Some (gc_sha item),
                         rt_size = Some (gc_size item)\<rparr>) contents, w1)
      | (_, w1) \<Rightarrow> ([], console_log ''listFiles failed, returning empty list'' w1))"

text \<open>\<open>Array.prototype.sort\<close> with a comparison function. The sort is stable; it is computed
  here by insertion from the right, an element going before the first one it does not
  follow.\<close>

fun insort_by :: "('a \<Rightarrow> 'a \<Rightarrow> int) \<Rightarrow> 'a \<Rightarrow> 'a list \<Rightarrow> 'a list" where
  "insort_by cmp x [] = [x]"
| "insort_by cmp x (y # ys) = (if cmp x y \<le> 0 then x # y # ys else y # insort_by cmp x ys)"

definition sort_by :: "('a \<Rightarrow> 'a \<Rightarrow> int) \<Rightarrow> 'a list \<Rightarrow> 'a list" where
  "sort_by cmp xs = foldr (insort_by cmp) xs []"

text \<open>\<open>localeCompare\<close> is the host's locale-sensitive comparison; it is a parameter.\<close>

definition comparePaths ::
  "(string \<Rightarrow> string \<Rightarrow> int) \<Rightarrow> string list \<Rightarrow> string \<Rightarrow> string \<Rightarrow> int" where
  "comparePaths localeCompare preferredNames a b =
     (let aLastName = toLowerCase (lastSegment a);
          bLastName = toLowerCase (lastSegment b);
          aIsPreferred = (aLastName \<in> set preferredNames);
          bIsPreferred = (bLastName \<in> set preferredNames)
      in if aIsPreferred \<and> \<not> bIsPreferred then - 1
         else if \<not> aIsPreferred \<and> bIsPreferred then 1
         else (let aDepth = int (length (split a CHR ''/''));
                   bDepth = int (length (split b CHR ''/''))
               in if aDepth \<noteq> bDepth then aDepth - bDepth else localeCompare a b))"

definition sortPaths ::
  "(string \<Rightarrow> string \<Rightarrow> int) \<Rightarrow> string list \<Rightarrow> string list \<Rightarrow> string list" where
  "sortPaths localeCompare paths preferredNames =
     sort_by (comparePaths localeCompare preferredNames) paths"

text \<open>\<open>foundDirs\<close> is a \<open>Set\<close>: it keeps insertion order and ignores a second \<open>add\<close>.\<close>

definition add :: "string \<Rightarrow> string list \<Rightarrow> string list" where
  "add x s = (if x \<in> set s then s else s @ [x])"

text \<open>The scan. The subdirectories are scanned one after the other here; the program
  starts them together and awaits them all.\<close>

function scanDirectoryGeneric ::
  "adapter \<Rightarrow> 'r backend \<Rightarrow> string \<Rightarrow> nat \<Rightarrow> nat \<Rightarrow> (string \<Rightarrow> bool)
     \<Rightarrow> string list \<times> 'r world \<Rightarrow> string list \<times> 'r world" where
  "scanDirectoryGeneric ad be path depth maxDepth fileCheck (foundDirs, w) =
     (if depth \<ge> maxDepth then (foundDirs, w)
      else (case getRepoContents ad be path w of
              (Inr (ContentList contents), w1) \<Rightarrow>
                (let hasMatchingFile =
                       (\<exists>item \<in> set contents. gc_type item = ''file'' \<and> fileCheck (gc_name item));
                     subDirs =
                       filter (\<lambda>item. \<not> (gc_type item = ''file'' \<and> fileCheck (gc_name item))
                                      \<and> gc_type item = ''dir''
                                      \<and> toLowerCase (gc_name item) \<notin> set ignoredDirs) contents;
                     foundDirs1 =
                       (if hasMatchingFile \<and> path \<noteq> [] then add path foundDirs else foundDirs)
                 in fold (\<lambda>dir. scanDirectoryGeneric ad be (gc_path dir) (depth + 1) maxDepth
                                   fileCheck) subDirs (foundDirs1, w1))
            | (_, w1) \<Rightarrow>
                (foundDirs,
                 console_log (''Could not scan directory '' @ [CHR 0x27] @ path @ [CHR 0x27] @ '':'')
                   w1)))"
  by pat_completeness auto
termination
  by (relation "measure (\<lambda>(ad, be, path, depth, maxDepth, fileCheck, st). maxDepth - depth)")
     auto

declare scanDirectoryGeneric.simps [simp del]

definition isMarkdown :: "string \<Rightarrow> bool" where
  "isMarkdown name = (endsWith name ''.md'' \<or> endsWith name ''.mdx'')"

text \<open>\<open>/\.(jpe?g|png|gif|webp|svg)$/i.test(name)\<close>.\<close>

definition isImage :: "string \<Rightarrow> bool" where
  "isImage name =
     (\<exists>ext \<in> set [''.jpg'', ''.jpeg'', ''.png'', ''.gif'', ''.webp'', ''.svg''].
        endsWith (toLowerCase name) ext)"

definition scanForContentDirectories ::
  "adapter \<Rightarrow> 'r backend \<Rightarrow> (string \<Rightarrow> string \<Rightarrow> int) \<Rightarrow> 'r world \<Rightarrow> string list \<times> 'r world" where
  "scanForContentDirectories ad be localeCompare w =
     (case scanDirectoryGeneric ad be [] 0 4 isMarkdown ([], w) of
        (foundDirs, w1) \<Rightarrow>
          (sortPaths localeCompare foundDirs
             [''posts'', ''post'', ''blog'', ''content'', ''data'', ''articles''], w1))"

text \<open>\<open>findIndex\<close> gives \<open>-1\<close> when no element satisfies the predicate.\<close>

fun findIndex :: "('a \<Rightarrow> bool) \<Rightarrow> 'a list \<Rightarrow> int" where
  "findIndex P [] = - 1"
| "findIndex P (x # xs) =
     (if P x then 0 else (let i = findIndex P xs in if i < 0 then - 1 else i + 1))"

definition scanForImageDirectories ::
  "adapter \<Rightarrow> 'r backend \<Rightarrow> (string \<Rightarrow> string \<Rightarrow> int) \<Rightarrow> 'r world \<Rightarrow> string list \<times> 'r world" where
  "scanForImageDirectories ad be localeCompare w =
     (case scanDirectoryGeneric ad be [] 0 4 isImage ([], w) of
        (foundDirs, w1) \<Rightarrow>
          (let sorted = sortPaths localeCompare foundDirs
                          [''images'', ''assets'', ''static'', ''public''];
               publicImagesIndex = findIndex (\<lambda>p. toLowerCase p = ''public/images'') sorted
           in if publicImagesIndex > 0
              then (let i = nat publicImagesIndex
                    in (sorted ! i # take i sorted @ drop (Suc i) sorted, w1))
              else (sorted, w1)))"

text \<open>The production URL. \<open>String.prototype.match\<close> and \<open>JSON.parse\<close> are the host's:
  \<open>exec\<close> gives, for a regular expression and a text, the first match and its capture
  group, and \<open>JSON_parse\<close> the parsed value or the error.\<close>

datatype regex = jsSiteRegex | yamlSiteRegex

datatype json_value =
    JNull | JBoolean bool | JNumber int | JString jsstring
  | JArray "json_value list" | JObject "(jsstring \<times> json_value) list"

definition filesToScan :: "(string \<times> regex) list" where
  "filesToScan =
     [(''astro.config.mjs'', jsSiteRegex),
      (''astro.config.ts'', jsSiteRegex),
      (''astro.config.js'', jsSiteRegex),
      (''src/config.yaml'', yamlSiteRegex),
      (''src/config.yml'', yamlSiteRegex),
      (''src/config.ts'', jsSiteRegex),
      (''src/config.js'', jsSiteRegex)]"

text \<open>\<open>s.replace(/\/$/, '')\<close>.\<close>

definition stripTrailingSlash :: "jsstring \<Rightarrow> jsstring" where
  "stripTrailingSlash s = (if s \<noteq> [] \<and> last s = 0x2F then butlast s else s)"

text \<open>\<open>pkg.homepage\<close>: a property read on \<open>null\<close> raises, on any other value that is not an
  object with that key it is undefined; of a repeated key the last value counts.\<close>

definition homepage_of :: "json_value \<Rightarrow> error + json_value option" where
  "homepage_of pkg =
     (case pkg of
        JNull \<Rightarrow> Inl (Error ''Cannot read properties of null'')
      | JObject members \<Rightarrow> Inr (map_of (rev members) (js ''homepage''))
      | _ \<Rightarrow> Inr None)"

subsection \<open>Operations of the two adapters\<close>

text \<open>The optimised \<open>listFiles\<close>: the default branch, then the recursive tree, filtered to
  blobs below the path. A failed request, and a payload without a \<open>tree\<close> array, lead to
  the \<open>catch\<close> branch and the default implementation.\<close>

definition listFiles ::
  "adapter \<Rightarrow> 'r backend \<Rightarrow> string \<Rightarrow> 'r world \<Rightarrow> RepoTreeItem list \<times> 'r world" where
  "listFiles ad be path w =
     (let failed = (case ad of GithubAdapter \<Rightarrow> ''Tree API failed, falling back to contents API''
                             | BaseGiteaAdapter \<Rightarrow> ''Tree API failed, falling back'');
          truncation = (case ad of
                          GithubAdapter \<Rightarrow> ''Tree response truncated. Some files may be missing (limit is usually 100k).''
                        | BaseGiteaAdapter \<Rightarrow> ''Tree response truncated.'')
      in case getRepoDetails ad be w of
           (Inl e, w1) \<Rightarrow> BaseGitService_listFiles ad be path (console_log failed w1)
         | (Inr repo, w1) \<Rightarrow>
             (let branch = (case default_branch_field repo of None \<Rightarrow> ''undefined'' | Some b \<Rightarrow> b)
              in case this_makeRequest ad be (get (Trees branch)) w1 of
                   (Inr (TreeData tree truncated), w2) \<Rightarrow>
                     (let w3 = (if truncated then console_log truncation w2 else w2);
                          normalizedPath =
                            (if path \<noteq> [] then (if endsWith path ''/'' then path else path @ ''/'')
                             else [])
                      in (map (\<lambda>item. \<lparr>rt_path = te_path item,
                                         rt_name = lastSegment (te_path item),
                                         rt_type = ''file'', rt_hasMarkdown = None,
                                         rt_sha = Some (te_sha item), rt_size = te_size item\<rparr>)
                            (filter (\<lambda>item. te_type item = ''blob''
                                       \<and> (normalizedPath = []
                                            \<or> startsWith (te_path item) normalizedPath)) tree),
                          w3))
                 | (_, w2) \<Rightarrow> BaseGitService_listFiles ad be path (console_log failed w2)))"

definition getFileContent ::
  "adapter \<Rightarrow> 'r backend \<Rightarrow> string \<Rightarrow> 'r world \<Rightarrow> (error + jsstring) \<times> 'r world" where
  "getFileContent ad be path w =
     (case this_makeRequest ad be (get (Contents path)) w of
        (Inl e, w1) \<Rightarrow> (Inl e, w1)
      | (Inr fileData, w1) \<Rightarrow>
          (decodeContent (content_field fileData) (encoding_field fileData)
             (case ad of GithubAdapter \<Rightarrow> ''Could not decode file content.''
                       | BaseGiteaAdapter \<Rightarrow> ''Could not decode file content from Gitea/Gogs.''),
           w1))"

definition writeRequest ::
  "http_method \<Rightarrow> string \<Rightarrow> string \<Rightarrow> jsstring option \<Rightarrow> string option \<Rightarrow> request" where
  "writeRequest m path commitMessage content sha =
     \<lparr>http_method = m, endpoint = Contents path,
      body = Some \<lparr>rb_message = commitMessage, rb_content = content, rb_sha = sha\<rparr>\<rparr>"

text \<open>\<open>fileToBase64\<close> reads the file with a \<open>FileReader\<close> and takes what follows the first
  comma of the data URL; the reader is the host's, so the function is a parameter.\<close>

definition uploadFile ::
  "adapter \<Rightarrow> 'r backend \<Rightarrow> ('f \<Rightarrow> error + jsstring option) \<Rightarrow> string \<Rightarrow> 'f \<Rightarrow> string
     \<Rightarrow> string option \<Rightarrow> 'r world \<Rightarrow> (error + payload) \<times> 'r world" where
  "uploadFile ad be fileToBase64 path file commitMessage sha w =
     (case fileToBase64 file of
        Inl e \<Rightarrow> (Inl e, w)
      | Inr content \<Rightarrow>
          (case (if truthy sha then (Inr sha, w) else getFileSha ad be path w) of
             (Inl e, w1) \<Rightarrow> (Inl e, w1)
           | (Inr finalSha, w1) \<Rightarrow>
               (case ad of
                  GithubAdapter \<Rightarrow>
                    this_makeRequest ad be (writeRequest PUT path commitMessage content finalSha) w1
                | BaseGiteaAdapter \<Rightarrow>
                    if truthy finalSha
                    then this_makeRequest ad be (writeRequest PUT path commitMessage content finalSha) w1
                    else this_makeRequest ad be (writeRequest POST path commitMessage content None) w1)))"

definition createFileFromString ::
  "adapter \<Rightarrow> 'r backend \<Rightarrow> string \<Rightarrow> jsstring \<Rightarrow> string \<Rightarrow> 'r world
     \<Rightarrow> (error + payload) \<times> 'r world" where
  "createFileFromString ad be path newContent commitMessage w =
     (case getFileSha ad be path w of
        (Inl e, w1) \<Rightarrow> (Inl e, w1)
      | (Inr sha, w1) \<Rightarrow>
          if truthy sha
          then (Inl (Error (''A file with the name '' @ [CHR 0x27] @ lastSegment path @ [CHR 0x27]
                              @ '' already exists in this directory.'')), w1)
          else (case base64Encode newContent of
                  Inl e \<Rightarrow> (Inl e, w1)
                | Inr content \<Rightarrow>
                    this_makeRequest ad be
                      (writeRequest (case ad of GithubAdapter \<Rightarrow> PUT | BaseGiteaAdapter \<Rightarrow> POST)
                         path commitMessage (Some content) None) w1))"

text \<open>\<open>a.split(',')[1]\<close>: undefined when there is no comma.\<close>

definition second :: "'a list \<Rightarrow> 'a option" where
  "second xs = (case xs of a # b # r \<Rightarrow> Some b | _ \<Rightarrow> None)"

definition updateFileContent ::
  "adapter \<Rightarrow> 'r backend \<Rightarrow> string \<Rightarrow> jsstring \<Rightarrow> string \<Rightarrow> string \<Rightarrow> 'r world
     \<Rightarrow> (error + payload) \<times> 'r world" where
  "updateFileContent ad be path newContent commitMessage sha w =
     (case (case ad of
              GithubAdapter \<Rightarrow>
                (case base64Encode newContent of Inl e \<Rightarrow> Inl e | Inr c \<Rightarrow> Inr (Some c))
            | BaseGiteaAdapter \<Rightarrow>
                if startsWith newContent (js ''data:'') then Inr (second (split newContent 0x2C))
                else (case base64Encode newContent of Inl e \<Rightarrow> Inl e | Inr c \<Rightarrow> Inr (Some c))) of
        Inl e \<Rightarrow> (Inl e, w)
      | Inr content \<Rightarrow>
          this_makeRequest ad be (writeRequest PUT path commitMessage content (Some sha)) w)"

definition deleteFile ::
  "adapter \<Rightarrow> 'r backend \<Rightarrow> string \<Rightarrow> string \<Rightarrow> string \<Rightarrow> 'r world
     \<Rightarrow> (error + payload) \<times> 'r world" where
  "deleteFile ad be path sha commitMessage w =
     this_makeRequest ad be (writeRequest DELETE path commitMessage None (Some sha)) w"

record Blob =
  blob_bytes :: Uint8Array
  blob_type :: string

text \<open>\<open>s.split('.').pop()?.toLowerCase() || ''\<close>.\<close>

definition extension :: "string \<Rightarrow> string" where
  "extension s = toLowerCase (last (split s CHR ''.''))"

definition mimeType :: "string \<Rightarrow> string" where
  "mimeType ext =
     (if ext = ''jpg'' \<or> ext = ''jpeg'' then ''image/jpeg''
      else if ext = ''png'' then ''image/png''
      else if ext = ''gif'' then ''image/gif''
      else if ext = ''webp'' then ''image/webp''
      else if ext = ''svg'' then ''image/svg+xml''
      else if ext = ''bmp'' then ''image/bmp''
      else ''application/octet-stream'')"

definition getFileAsBlob ::
  "adapter \<Rightarrow> 'r backend \<Rightarrow> string \<Rightarrow> 'r world \<Rightarrow> (error + Blob) \<times> 'r world" where
  "getFileAsBlob ad be path w =
     (case this_makeRequest ad be (get (Contents path)) w of
        (Inl e, w1) \<Rightarrow> (Inl e, w1)
      | (Inr fileData, w1) \<Rightarrow>
          (case content_field fileData of
             None \<Rightarrow> (Inl (Error (''Could not get file content for path: '' @ path)), w1)
           | Some c \<Rightarrow>
               if c \<noteq> [] \<and> encoding_field fileData = Some ''base64'' then
                 (case atob c of
                    Inl e \<Rightarrow> (Inl e, w1)
                  | Inr binaryString \<Rightarrow>
                      (Inr \<lparr>blob_bytes = map (\<lambda>u. of_nat (unat u)) binaryString,
                            blob_type = mimeType (extension (orElse (name_field fileData) []))\<rparr>,
                       w1))
               else (Inl (Error (''Could not get file content for path: '' @ path)), w1)))"

text \<open>\<open>getRepoTree\<close>: one listing, one more for every directory in it (taken here one after
  the other), the ignored names dropped, directories before files, then by name.\<close>

fun traverse :: "('a \<Rightarrow> 'w \<Rightarrow> 'b \<times> 'w) \<Rightarrow> 'a list \<Rightarrow> 'w \<Rightarrow> 'b list \<times> 'w" where
  "traverse f [] w = ([], w)"
| "traverse f (x # xs) w =
     (case f x w of (y, w1) \<Rightarrow> (case traverse f xs w1 of (ys, w2) \<Rightarrow> (y # ys, w2)))"

definition processItem ::
  "adapter \<Rightarrow> 'r backend \<Rightarrow> GithubContent \<Rightarrow> 'r world \<Rightarrow> RepoTreeItem option \<times> 'r world" where
  "processItem ad be item w =
     (if toLowerCase (gc_name item) \<in> set ignoredTreeDirs then (None, w)
      else if gc_type item = ''dir'' then
        (case getRepoContents ad be (gc_path item) w of
           (Inr (ContentList subContents), w1) \<Rightarrow>
             (Some \<lparr>rt_path = gc_path item, rt_name = gc_name item, rt_type = ''dir'',
                    rt_hasMarkdown =
                      Some (\<exists>subItem \<in> set subContents.
                              gc_type subItem = ''file'' \<and> isMarkdown (gc_name subItem)),
                    rt_sha = Some (gc_sha item), rt_size = None\<rparr>, w1)
         | (_, w1) \<Rightarrow>
             (Some \<lparr>rt_path = gc_path item, rt_name = gc_name item, rt_type = ''dir'',
                    rt_hasMarkdown = Some False, rt_sha = Some (gc_sha item), rt_size = None\<rparr>,
              w1))
      else (Some \<lparr>rt_path = gc_path item, rt_name = gc_name item, rt_type = ''file'',
                  rt_hasMarkdown = None, rt_sha = Some (gc_sha item),
                  rt_size = Some (gc_size item)\<rparr>, w))"

definition compareItems :: "(string \<Rightarrow> string \<Rightarrow> int) \<Rightarrow> RepoTreeItem \<Rightarrow> RepoTreeItem \<Rightarrow> int" where
  "compareItems localeCompare a b =
     (if rt_type a = ''dir'' \<and> rt_type b \<noteq> ''dir'' then - 1
      else if rt_type a \<noteq> ''dir'' \<and> rt_type b = ''dir'' then 1
      else localeCompare (rt_name a) (rt_name b))"

definition getRepoTree ::
  "adapter \<Rightarrow> 'r backend \<Rightarrow> (string \<Rightarrow> string \<Rightarrow> int) \<Rightarrow> string \<Rightarrow> 'r world
     \<Rightarrow> (error + RepoTreeItem list) \<times> 'r world" where
  "getRepoTree ad be localeCompare path w =
     (case getRepoContents ad be path w of
        (Inl e, w1) \<Rightarrow> (Inl e, w1)
      | (Inr (ContentList contents), w1) \<Rightarrow>
          (case traverse (processItem ad be) contents w1 of
             (processedItems, w2) \<Rightarrow>
               (Inr (sort_by (compareItems localeCompare)
                       (concat (map (\<lambda>item. case item of None \<Rightarrow> [] | Some i \<Rightarrow> [i])
                                  processedItems))), w2))
      | (Inr _, w1) \<Rightarrow> (Inl (Error ''contents.map is not a function''), w1))"

text \<open>\<open>findProductionUrl\<close>: the loop over \<open>filesToScan\<close>, then \<open>package.json\<close>. Every
  failure is caught and the next file is tried.\<close>

fun scanFiles ::
  "adapter \<Rightarrow> 'r backend \<Rightarrow> (regex \<Rightarrow> jsstring \<Rightarrow> (jsstring \<times> jsstring option) option)
     \<Rightarrow> (string \<times> regex) list \<Rightarrow> 'r world \<Rightarrow> jsstring option \<times> 'r world" where
  "scanFiles ad be exec [] w = (None, w)"
| "scanFiles ad be exec (file # files) w =
     (case getFileContent ad be (fst file) w of
        (Inl e, w1) \<Rightarrow> scanFiles ad be exec files w1
      | (Inr content, w1) \<Rightarrow>
          (case exec (snd file) content of
             None \<Rightarrow> scanFiles ad be exec files w1
           | Some (whole, group1) \<Rightarrow>
               if truthy group1
               then (Some (stripTrailingSlash (case group1 of Some u \<Rightarrow> u | None \<Rightarrow> [])), w1)
               else scanFiles ad be exec files w1))"

definition findProductionUrl ::
  "adapter \<Rightarrow> 'r backend \<Rightarrow> (regex \<Rightarrow> jsstring \<Rightarrow> (jsstring \<times> jsstring option) option)
     \<Rightarrow> (jsstring \<Rightarrow> error + json_value) \<Rightarrow> 'r world \<Rightarrow> jsstring option \<times> 'r world" where
  "findProductionUrl ad be exec JSON_parse w =
     (case scanFiles ad be exec filesToScan w of
        (Some url, w1) \<Rightarrow> (Some url, w1)
      | (None, w1) \<Rightarrow>
          (case getFileContent ad be ''package.json'' w1 of
             (Inl e, w2) \<Rightarrow> (None, w2)
           | (Inr content, w2) \<Rightarrow>
               (case JSON_parse content of
                  Inl e \<Rightarrow> (None, w2)
                | Inr pkg \<Rightarrow>
                    (case homepage_of pkg of
                       Inr (Some (JString homepage)) \<Rightarrow>
                         if homepage \<noteq> [] \<and> startsWith homepage (js ''http'')
                         then (Some (stripTrailingSlash homepage), w2)
                         else (None, w2)
                     | _ \<Rightarrow> (None, w2)))))"

section \<open>Backends\<close>

text \<open>A backend that answers every request from a fixed table and has no state.\<close>

definition static :: "(request \<Rightarrow> response option) \<Rightarrow> 'r backend" where
  "static srv = (\<lambda>req r. (srv req, r))"

text \<open>
  Modelled from the spec: the remote backend, which is a service outside the repository.
  The spec treats the remote repository as a flat, path-addressed store of files, each
  with a content hash used as the compare-and-swap token (sections 1 and 3); a listing of
  one directory fails with \<open>NotFound\<close> if the path does not exist (4.1); the recursive
  tree endpoint returns the whole tree and reports truncation (4.3, 6); a write carries
  \<open>{message, content, sha?}\<close>, a delete \<open>{message, sha}\<close>, and the backend rejects the
  operation with \<open>Conflict\<close> if the path's current hash differs, or if the file already
  exists on a create (3, 6, 7); a rejected token is answered with 401 (6). Of the fields
  of a write only the hash is optional: a body without \<open>content\<close> is refused. The hash of
  a content is the parameter \<open>hash\<close>.

  The program puts a path into the URL of its request as it is
  (\<open>.../contents/${path}\<close>, \<open>.../git/trees/${branch}?recursive=1\<close>), so the backend is
  asked for what precedes the first \<open>#\<close> or \<open>?\<close> of it: what follows is the fragment or
  the query of the URL. \<open>resource\<close> is that part. The other syntax of a URL (percent
  signs, backslashes, the segments \<open>.\<close> and \<open>..\<close>) is not modelled: the statements about
  this backend are about paths without it.
\<close>

definition resource :: "string \<Rightarrow> string" where
  "resource p = takeWhile (\<lambda>c. c \<noteq> CHR ''#'' \<and> c \<noteq> CHR ''?'') p"

record stored =
  file_sha :: string
  file_content :: jsstring

record store =
  files :: "(string \<times> stored) list"
  token_valid :: bool
  branch :: string
  tree_api :: bool
  tree_limit :: nat

definition respond :: "nat \<Rightarrow> string \<Rightarrow> payload \<Rightarrow> response option" where
  "respond st txt d = Some \<lparr>status = st, statusText = txt, json = Inr d\<rparr>"

definition conflict :: "response option" where
  "conflict = respond 409 ''Conflict'' (ErrorData (Some ''sha does not match'') None)"

definition notFound :: "response option" where
  "notFound = respond 404 ''Not Found'' (ErrorData (Some ''Not Found'') None)"

definition dirPrefix :: "string \<Rightarrow> string" where
  "dirPrefix p = (if p = [] then [] else if endsWith p ''/'' then p else p @ ''/'')"

definition byteSize :: "jsstring \<Rightarrow> nat" where
  "byteSize c = (case atob c of Inl e \<Rightarrow> 0 | Inr b \<Rightarrow> length b)"

definition fileEntry :: "string \<times> stored \<Rightarrow> GithubContent" where
  "fileEntry f =
     \<lparr>gc_name = lastSegment (fst f), gc_path = fst f, gc_sha = file_sha (snd f),
      gc_size = byteSize (file_content (snd f)), gc_type = ''file'', gc_content = None,
      gc_encoding = None\<rparr>"

definition dirEntry :: "(jsstring \<Rightarrow> string) \<Rightarrow> string \<Rightarrow> GithubContent" where
  "dirEntry hash d =
     \<lparr>gc_name = lastSegment d, gc_path = d, gc_sha = hash (js d), gc_size = 0,
      gc_type = ''dir'', gc_content = None, gc_encoding = None\<rparr>"

text \<open>The files directly in a directory, and its subdirectories: the first segments of the
  deeper paths.\<close>

definition filesIn :: "store \<Rightarrow> string \<Rightarrow> (string \<times> stored) list" where
  "filesIn r p =
     filter (\<lambda>f. startsWith (fst f) (dirPrefix p)
                 \<and> CHR ''/'' \<notin> set (drop (length (dirPrefix p)) (fst f))) (files r)"

definition subdirsOf :: "store \<Rightarrow> string \<Rightarrow> string list" where
  "subdirsOf r p =
     remdups (map (\<lambda>f. dirPrefix p
                          @ takeWhile (\<lambda>c. c \<noteq> CHR ''/'') (drop (length (dirPrefix p)) (fst f)))
                (filter (\<lambda>f. startsWith (fst f) (dirPrefix p)
                              \<and> CHR ''/'' \<in> set (drop (length (dirPrefix p)) (fst f))) (files r)))"

definition isDirectory :: "store \<Rightarrow> string \<Rightarrow> bool" where
  "isDirectory r p = (p = [] \<or> (\<exists>f \<in> set (files r). startsWith (fst f) (dirPrefix p)))"

definition listing :: "(jsstring \<Rightarrow> string) \<Rightarrow> store \<Rightarrow> string \<Rightarrow> GithubContent list" where
  "listing hash r p = map (dirEntry hash) (subdirsOf r p) @ map fileEntry (filesIn r p)"

text \<open>The recursive tree: a \<open>blob\<close> for every file and a \<open>tree\<close> for every directory.\<close>

definition parents :: "string \<Rightarrow> string list" where
  "parents f = map (\<lambda>i. take i f) (filter (\<lambda>i. f ! i = CHR ''/'') [0..<length f])"

definition treeEntries :: "(jsstring \<Rightarrow> string) \<Rightarrow> store \<Rightarrow> GitTreeEntry list" where
  "treeEntries hash r =
     map (\<lambda>f. \<lparr>te_path = fst f, te_type = ''blob'', te_sha = file_sha (snd f),
               te_size = Some (byteSize (file_content (snd f)))\<rparr>) (files r)
     @ map (\<lambda>d. \<lparr>te_path = d, te_type = ''tree'', te_sha = hash (js d), te_size = None\<rparr>)
         (remdups (concat (map (\<lambda>f. parents (fst f)) (files r))))"

definition putFile :: "string \<Rightarrow> stored \<Rightarrow> (string \<times> stored) list \<Rightarrow> (string \<times> stored) list" where
  "putFile p f fs =
     (if p \<in> fst ` set fs then map (\<lambda>e. if fst e = p then (p, f) else e) fs else fs @ [(p, f)])"

definition removeFile :: "string \<Rightarrow> (string \<times> stored) list \<Rightarrow> (string \<times> stored) list" where
  "removeFile p fs = filter (\<lambda>e. fst e \<noteq> p) fs"

definition newFile :: "(jsstring \<Rightarrow> string) \<Rightarrow> jsstring \<Rightarrow> stored" where
  "newFile hash c = \<lparr>file_sha = hash c, file_content = c\<rparr>"

definition invalid :: "response option" where
  "invalid = respond 422 ''Unprocessable Entity'' (ErrorData (Some ''Invalid request'') None)"

text \<open>The content of a write, when the request has a body with one.\<close>

definition contentOf :: "RequestBody option \<Rightarrow> jsstring option" where
  "contentOf b = (case b of None \<Rightarrow> None | Some b \<Rightarrow> rb_content b)"

definition serveContents ::
  "(jsstring \<Rightarrow> string) \<Rightarrow> http_method \<Rightarrow> string \<Rightarrow> RequestBody option \<Rightarrow> store
     \<Rightarrow> response option \<times> store" where
  "serveContents hash m p b r =
     (case m of
        GET \<Rightarrow>
          (case map_of (files r) p of
             Some f \<Rightarrow>
               (respond 200 ''OK''
                  (FileData ((fileEntry (p, f))\<lparr>gc_content := Some (file_content f),
                                               gc_encoding := Some ''base64''\<rparr>)), r)
           | None \<Rightarrow>
               if isDirectory r p then (respond 200 ''OK'' (ContentList (listing hash r p)), r)
               else (notFound, r))
      | PUT \<Rightarrow>
          (case contentOf b of
             None \<Rightarrow> (invalid, r)
           | Some c \<Rightarrow>
               (case (map_of (files r) p, (case b of None \<Rightarrow> None | Some b \<Rightarrow> rb_sha b)) of
                  (Some f, Some h) \<Rightarrow>
                    if h = file_sha f
                    then (respond 200 ''OK'' EmptyObject,
                          r\<lparr>files := putFile p (newFile hash c) (files r)\<rparr>)
                    else (conflict, r)
                | (Some f, None) \<Rightarrow> (conflict, r)
                | (None, Some h) \<Rightarrow> (conflict, r)
                | (None, None) \<Rightarrow>
                    (respond 201 ''Created'' EmptyObject,
                     r\<lparr>files := putFile p (newFile hash c) (files r)\<rparr>)))
      | POST \<Rightarrow>
          (case contentOf b of
             None \<Rightarrow> (invalid, r)
           | Some c \<Rightarrow>
               (case map_of (files r) p of
                  Some f \<Rightarrow> (conflict, r)
                | None \<Rightarrow>
                    (respond 201 ''Created'' EmptyObject,
                     r\<lparr>files := putFile p (newFile hash c) (files r)\<rparr>)))
      | DELETE \<Rightarrow>
          (case map_of (files r) p of
             None \<Rightarrow> (notFound, r)
           | Some f \<Rightarrow>
               if (case b of None \<Rightarrow> None | Some b \<Rightarrow> rb_sha b) = Some (file_sha f)
               then (respond 200 ''OK'' EmptyObject, r\<lparr>files := removeFile p (files r)\<rparr>)
               else (conflict, r)))"

definition serve :: "(jsstring \<Rightarrow> string) \<Rightarrow> store backend" where
  "serve hash req r =
     (if \<not> token_valid r
      then (respond 401 ''Unauthorized'' (ErrorData (Some ''Bad credentials'') None), r)
      else (case endpoint req of
              User \<Rightarrow> (respond 200 ''OK'' EmptyObject, r)
            | Repo \<Rightarrow> (respond 200 ''OK'' (RepoData \<lparr>default_branch = branch r\<rparr>), r)
            | Trees b \<Rightarrow>
                if tree_api r \<and> resource b = branch r
                then (respond 200 ''OK''
                        (TreeData (take (tree_limit r) (treeEntries hash r))
                           (tree_limit r < length (treeEntries hash r))), r)
                else (notFound, r)
            | Contents p \<Rightarrow> serveContents hash (http_method req) (resource p) (body req) r))"

section \<open>The interface as a whole\<close>

text \<open>The operations of \<open>IGitService\<close>, with their arguments, and the functions of the
  host they rely on. \<open>perform\<close> runs one operation and gives the world it leaves.\<close>

record 'f host =
  host_localeCompare :: "string \<Rightarrow> string \<Rightarrow> int"
  host_exec :: "regex \<Rightarrow> jsstring \<Rightarrow> (jsstring \<times> jsstring option) option"
  host_JSON_parse :: "jsstring \<Rightarrow> error + json_value"
  host_fileToBase64 :: "'f \<Rightarrow> error + jsstring option"

datatype 'f call =
    GetRepoContents string
  | ListFiles string
  | GetFileContent string
  | UploadFile string 'f string "string option"
  | CreateFileFromString string jsstring string
  | UpdateFileContent string jsstring string string
  | DeleteFile string string string
  | GetFileAsBlob string
  | ScanForContentDirectories
  | ScanForImageDirectories
  | FindProductionUrl
  | GetRepoTree string
  | GetRepoDetails

definition perform :: "adapter \<Rightarrow> 'r backend \<Rightarrow> 'f host \<Rightarrow> 'f call \<Rightarrow> 'r world \<Rightarrow> 'r world" where
  "perform ad be h c w =
     (case c of
        GetRepoContents path \<Rightarrow> snd (getRepoContents ad be path w)
      | ListFiles path \<Rightarrow> snd (listFiles ad be path w)
      | GetFileContent path \<Rightarrow> snd (getFileContent ad be path w)
      | UploadFile path file commitMessage sha \<Rightarrow>
          snd (uploadFile ad be (host_fileToBase64 h) path file commitMessage sha w)
      | CreateFileFromString path newContent commitMessage \<Rightarrow>
          snd (createFileFromString ad be path newContent commitMessage w)
      | UpdateFileContent path newContent commitMessage sha \<Rightarrow>
          snd (updateFileContent ad be path newContent commitMessage sha w)
      | DeleteFile path sha commitMessage \<Rightarrow> snd (deleteFile ad be path sha commitMessage w)
      | GetFileAsBlob path \<Rightarrow> snd (getFileAsBlob ad be path w)
      | ScanForContentDirectories \<Rightarrow>
          snd (scanForContentDirectories ad be (host_localeCompare h) w)
      | ScanForImageDirectories \<Rightarrow> snd (scanForImageDirectories ad be (host_localeCompare h) w)
      | FindProductionUrl \<Rightarrow>
          snd (findProductionUrl ad be (host_exec h) (host_JSON_parse h) w)
      | GetRepoTree path \<Rightarrow> snd (getRepoTree ad be (host_localeCompare h) path w)
      | GetRepoDetails \<Rightarrow> snd (getRepoDetails ad be w))"

section \<open>Notions used in the statements\<close>

text \<open>An answer with the authentication-failure status.\<close>

definition unauthorized :: "response option \<Rightarrow> bool" where
  "unauthorized answer = (case answer of None \<Rightarrow> False | Some response \<Rightarrow> status response = 401)"

text \<open>From one world to a later one: the requests added, and one \<open>auth-error\<close> event
  for each of their answers that is unauthorized.\<close>

definition signalled :: "'r world \<Rightarrow> 'r world \<Rightarrow> bool" where
  "signalled w w' =
     (\<exists>ts. traffic w' = traffic w @ ts
        \<and> events w' = events w @ replicate (length (filter (\<lambda>t. unauthorized (snd t)) ts))
                                      ''auth-error'')"

text \<open>The line written to the console when the tree response is truncated.\<close>

definition truncationWarning :: "adapter \<Rightarrow> string" where
  "truncationWarning ad =
     (case ad of
        GithubAdapter \<Rightarrow> ''Tree response truncated. Some files may be missing (limit is usually 100k).''
      | BaseGiteaAdapter \<Rightarrow> ''Tree response truncated.'')"





text \<open>A Unicode scalar value is a code point that is not a surrogate. A sequence of
  code units is well formed when its surrogates come in pairs, a high one followed by a
  low one: it is then the UTF-16 form of a sequence of scalar values.\<close>

definition scalar :: "nat \<Rightarrow> bool" where
  "scalar c = (c < 0x110000 \<and> \<not> isSurrogate c)"

fun wellFormed :: "nat list \<Rightarrow> bool" where
  "wellFormed [] = True"
| "wellFormed [u] = (\<not> isSurrogate u)"
| "wellFormed (u # v # us) =
     (if isHighSurrogate u then isLowSurrogate v \<and> wellFormed us
      else \<not> isSurrogate u \<and> wellFormed (v # us))"

text \<open>The 6-bit groups of a byte sequence, and the number of padding characters that
  follow them in its base64 text.\<close>

fun sextets :: "nat list \<Rightarrow> nat list" where
  "sextets [] = []"
| "sextets [a] = [a div 4, (a mod 4) * 16]"
| "sextets [a, b] = [a div 4, (a mod 4) * 16 + b div 16, (b mod 16) * 4]"
| "sextets (a # b # c # r) =
     [a div 4, (a mod 4) * 16 + b div 16, (b mod 16) * 4 + c div 64, c mod 64] @ sextets r"

fun padding :: "nat list \<Rightarrow> nat" where
  "padding [] = 0"
| "padding [a] = 2"
| "padding [a, b] = 1"
| "padding (a # b # c # r) = padding r"




text \<open>The content that an update carries: the base64 text of the new content; in the
  Gitea and Gogs adapter a text that starts with \<open>data:\<close> is taken for a data URL, and what
  stands between its first and its second comma is carried, nothing when it has no
  comma.\<close>

definition carried :: "adapter \<Rightarrow> jsstring \<Rightarrow> jsstring option" where
  "carried ad newContent =
     (if ad = BaseGiteaAdapter \<and> startsWith newContent (js ''data:'')
      then second (split newContent 0x2C)
      else (case base64Encode newContent of Inl e \<Rightarrow> None | Inr c \<Rightarrow> Some c))"

text \<open>A backend is quiet when answering a \<open>GET\<close> request leaves its state as it was.\<close>

definition quiet :: "'r backend \<Rightarrow> bool" where
  "quiet be = (\<forall>req r. http_method req = GET \<longrightarrow> snd (be req r) = r)"


section \<open>The production URL in the words of the spec\<close>

text \<open>
  The second definition of the production URL, written after the description of
  \<open>findProductionUrl\<close> in the spec and not after its code; \<open>read\<close> gives the text of the
  file at a path, or the error of reading it.
\<close>

text \<open>The configuration files in the order of their priority: the Astro configuration
  files, then the YAML, TypeScript and JavaScript configuration files, then the package
  manifest.\<close>

definition candidates :: "string list" where
  "candidates =
     [''astro.config.mjs'', ''astro.config.ts'', ''astro.config.js'',
      ''src/config.yaml'', ''src/config.yml'', ''src/config.ts'', ''src/config.js'',
      ''package.json'']"

text \<open>The regular expression tuned to a file's syntax, and the URL that a match
  captures.\<close>

definition regexFor :: "string \<Rightarrow> regex" where
  "regexFor p = (if endsWith p ''.yaml'' \<or> endsWith p ''.yml'' then yamlSiteRegex else jsSiteRegex)"

definition siteUrl :: "(jsstring \<times> jsstring option) option \<Rightarrow> jsstring option" where
  "siteUrl m = (case m of Some (whole, Some url) \<Rightarrow> if url = [] then None else Some url | _ \<Rightarrow> None)"

text \<open>The \<open>homepage\<close> field of the parsed package manifest, when it is a string that
  starts with \<open>http\<close>.\<close>

definition homepageUrl :: "error + json_value \<Rightarrow> jsstring option" where
  "homepageUrl parsed =
     (case parsed of
        Inr (JObject members) \<Rightarrow>
          (case map_of (rev members) (js ''homepage'') of
             Some (JString h) \<Rightarrow> if startsWith h (js ''http'') then Some h else None
           | _ \<Rightarrow> None)
      | _ \<Rightarrow> None)"

text \<open>The URL found at a path, given what reading each path gives: none when the read
  fails.\<close>

definition urlAt ::
  "(regex \<Rightarrow> jsstring \<Rightarrow> (jsstring \<times> jsstring option) option) \<Rightarrow> (jsstring \<Rightarrow> error + json_value)
     \<Rightarrow> (string \<Rightarrow> error + jsstring) \<Rightarrow> string \<Rightarrow> jsstring option" where
  "urlAt exec JSON_parse read p =
     (case read p of
        Inl e \<Rightarrow> None
      | Inr text \<Rightarrow>
          if p = ''package.json'' then homepageUrl (JSON_parse text)
          else siteUrl (exec (regexFor p) text))"

text \<open>The first URL found, its trailing slash stripped, or nothing; and the paths that
  are read for it: those that yield no URL, up to and including the first that does.\<close>

definition spec_findProductionUrl ::
  "(regex \<Rightarrow> jsstring \<Rightarrow> (jsstring \<times> jsstring option) option) \<Rightarrow> (jsstring \<Rightarrow> error + json_value)
     \<Rightarrow> (string \<Rightarrow> error + jsstring) \<Rightarrow> jsstring option" where
  "spec_findProductionUrl exec JSON_parse read =
     (case List.find (\<lambda>p. urlAt exec JSON_parse read p \<noteq> None) candidates of
        None \<Rightarrow> None
      | Some p \<Rightarrow> map_option stripTrailingSlash (urlAt exec JSON_parse read p))"

definition pathsRead ::
  "(regex \<Rightarrow> jsstring \<Rightarrow> (jsstring \<times> jsstring option) option) \<Rightarrow> (jsstring \<Rightarrow> error + json_value)
     \<Rightarrow> (string \<Rightarrow> error + jsstring) \<Rightarrow> string list" where
  "pathsRead exec JSON_parse read =
     takeWhile (\<lambda>p. urlAt exec JSON_parse read p = None) candidates
       @ take 1 (dropWhile (\<lambda>p. urlAt exec JSON_parse read p = None) candidates)"


section \<open>Sample data\<close>

text \<open>A comparison by character codes, standing for \<open>localeCompare\<close> in the examples, and
  a small repository served from a table: \<open>posts/a.md\<close>, \<open>posts/sub/b.md\<close>,
  \<open>.git/config\<close>, \<open>public/images/x.PNG\<close>, \<open>assets/y.jpg\<close> and \<open>logo.svg\<close>.\<close>

fun compareCodes :: "nat list \<Rightarrow> nat list \<Rightarrow> int" where
  "compareCodes [] [] = 0"
| "compareCodes [] (y # ys) = - 1"
| "compareCodes (x # xs) [] = 1"
| "compareCodes (x # xs) (y # ys) =
     (if x < y then - 1 else if y < x then 1 else compareCodes xs ys)"

definition codeOrder :: "string \<Rightarrow> string \<Rightarrow> int" where
  "codeOrder a b = compareCodes (map of_char a) (map of_char b)"

definition entry :: "string \<Rightarrow> string \<Rightarrow> string \<Rightarrow> GithubContent" where
  "entry n p t =
     \<lparr>gc_name = n, gc_path = p, gc_sha = ''0f'', gc_size = 1, gc_type = t, gc_content = None,
      gc_encoding = None\<rparr>"

definition sampleSite :: "request \<Rightarrow> response option" where
  "sampleSite req =
     (case endpoint req of
        Contents p \<Rightarrow>
          if p = [] then
            respond 200 ''OK'' (ContentList
              [entry ''.git'' ''.git'' ''dir'', entry ''assets'' ''assets'' ''dir'',
               entry ''posts'' ''posts'' ''dir'', entry ''public'' ''public'' ''dir'',
               entry ''logo.svg'' ''logo.svg'' ''file''])
          else if p = ''.git'' then
            respond 200 ''OK'' (ContentList [entry ''config'' ''.git/config'' ''file''])
          else if p = ''assets'' then
            respond 200 ''OK'' (ContentList [entry ''y.jpg'' ''assets/y.jpg'' ''file''])
          else if p = ''posts'' then
            respond 200 ''OK'' (ContentList
              [entry ''sub'' ''posts/sub'' ''dir'', entry ''a.md'' ''posts/a.md'' ''file''])
          else if p = ''posts/sub'' then
            respond 200 ''OK'' (ContentList [entry ''b.md'' ''posts/sub/b.md'' ''file''])
          else if p = ''public'' then
            respond 200 ''OK'' (ContentList [entry ''images'' ''public/images'' ''dir''])
          else if p = ''public/images'' then
            respond 200 ''OK'' (ContentList [entry ''x.PNG'' ''public/images/x.PNG'' ''file''])
          else notFound
      | _ \<Rightarrow> notFound)"

text \<open>A repository with two image directories whose paths differ only in the case of
  their letters: \<open>Public/Images/a.png\<close> and \<open>public/images/b.png\<close>.\<close>

definition sampleCase :: "request \<Rightarrow> response option" where
  "sampleCase req =
     (case endpoint req of
        Contents p \<Rightarrow>
          if p = [] then
            respond 200 ''OK'' (ContentList
              [entry ''Public'' ''Public'' ''dir'', entry ''public'' ''public'' ''dir''])
          else if p = ''Public'' then
            respond 200 ''OK'' (ContentList [entry ''Images'' ''Public/Images'' ''dir''])
          else if p = ''public'' then
            respond 200 ''OK'' (ContentList [entry ''images'' ''public/images'' ''dir''])
          else if p = ''Public/Images'' then
            respond 200 ''OK'' (ContentList [entry ''a.png'' ''Public/Images/a.png'' ''file''])
          else if p = ''public/images'' then
            respond 200 ''OK'' (ContentList [entry ''b.png'' ''public/images/b.png'' ''file''])
          else notFound
      | _ \<Rightarrow> notFound)"

text \<open>A backend that rejects every token, a host whose functions find nothing, and a
  repository whose recursive tree is reported as truncated.\<close>

definition rejecting :: "request \<Rightarrow> response option" where
  "rejecting req = respond 401 ''Unauthorized'' (ErrorData (Some ''Bad credentials'') None)"

definition sampleHost :: "unit host" where
  "sampleHost =
     \<lparr>host_localeCompare = codeOrder, host_exec = (\<lambda>rx text. None),
      host_JSON_parse = (\<lambda>text. Inr JNull), host_fileToBase64 = (\<lambda>f2. Inr None)\<rparr>"

definition sampleTruncated :: "request \<Rightarrow> response option" where
  "sampleTruncated req =
     (case endpoint req of
        Repo \<Rightarrow> respond 200 ''OK'' (RepoData \<lparr>default_branch = ''main''\<rparr>)
      | Trees b \<Rightarrow>
          if b = ''main'' then
            respond 200 ''OK'' (TreeData
              [\<lparr>te_path = ''posts'', te_type = ''tree'', te_sha = ''0a'', te_size = None\<rparr>,
               \<lparr>te_path = ''posts/a.md'', te_type = ''blob'', te_sha = ''0b'', te_size = Some 1\<rparr>,
               \<lparr>te_path = ''readme.md'', te_type = ''blob'', te_sha = ''0c'', te_size = Some 1\<rparr>]
              True)
          else notFound
      | _ \<Rightarrow> notFound)"

text \<open>A content store with \<open>posts/a.md\<close> and \<open>posts/sub/b.md\<close>, and a hash for it.\<close>

definition sampleHash :: "jsstring \<Rightarrow> string" where
  "sampleHash c = show_nat (length c) @ ''f''"

definition sampleStore :: store where
  "sampleStore =
     \<lparr>files = [(''posts/a.md'', \<lparr>file_sha = ''a1'', file_content = js ''YQ==''\<rparr>),
               (''posts/sub/b.md'', \<lparr>file_sha = ''b2'', file_content = js ''Yg==''\<rparr>)],
      token_valid = True, branch = ''main'', tree_api = True, tree_limit = 100000\<rparr>"

text \<open>A repository whose only configuration file is \<open>src/config.yaml\<close>, with the text
  \<open>site: https://a.io/\<close>, and the matches of the two regular expressions on that text:
  the YAML expression captures the URL, the JavaScript one needs a quote and finds nothing.\<close>

definition sampleConfig :: "request \<Rightarrow> response option" where
  "sampleConfig req =
     (case endpoint req of
        Contents p \<Rightarrow>
          if p = ''src/config.yaml'' then
            respond 200 ''OK'' (FileData
              \<lparr>gc_name = ''config.yaml'', gc_path = ''src/config.yaml'', gc_sha = ''0e'',
               gc_size = 19, gc_type = ''file'',
               gc_content = Some (js ''c2l0ZTogaHR0cHM6Ly9hLmlvLw==''),
               gc_encoding = Some ''base64''\<rparr>)
          else notFound
      | _ \<Rightarrow> notFound)"

definition sampleExec :: "regex \<Rightarrow> jsstring \<Rightarrow> (jsstring \<times> jsstring option) option" where
  "sampleExec rx text =
     (if rx = yamlSiteRegex \<and> text = js ''site: https://a.io/''
      then Some (text, Some (js ''https://a.io/'')) else None)"

section \<open>What a request leaves in the world\<close>

lemma fetch_world:
  "fetch be req w = (answer, w1) \<Longrightarrow>
     (\<exists>r'. be req (remote w) = (answer, r') \<and> remote w1 = r')
     \<and> traffic w1 = traffic w @ [(req, answer)] \<and> events w1 = events w \<and> console w1 = console w"
  by (auto simp: fetch_def split: prod.splits)

lemma makeRequest_world:
  assumes "makeRequest be req w = (res, w1)"
  shows "\<exists>answer r'. be req (remote w) = (answer, r') \<and> remote w1 = r'
           \<and> traffic w1 = traffic w @ [(req, answer)]
           \<and> events w1 = events w @ (if unauthorized answer then [''auth-error''] else [])
           \<and> console w1 = console w
           \<and> (\<forall>cs. res = Inr (ContentList cs) \<longrightarrow>
                 (\<exists>response. answer = Some response \<and> json response = Inr (ContentList cs)))"
proof -
  obtain answer w0 where f: "fetch be req w = (answer, w0)" by (cases "fetch be req w")
  from fetch_world [OF f] assms f show ?thesis
    by (auto simp: makeRequest_def unauthorized_def dispatchEvent_def Let_def
        split: option.splits if_splits sum.splits)
qed

lemma makeGiteaRequest_world:
  assumes "makeGiteaRequest be req w = (res, w1)"
  shows "\<exists>answer r'. be req (remote w) = (answer, r') \<and> remote w1 = r'
           \<and> traffic w1 = traffic w @ [(req, answer)]
           \<and> events w1 = events w @ (if unauthorized answer then [''auth-error''] else [])
           \<and> console w1 = console w
           \<and> (\<forall>cs. res = Inr (ContentList cs) \<longrightarrow>
                 (\<exists>response. answer = Some response \<and> json response = Inr (ContentList cs)))"
proof -
  obtain answer w0 where f: "fetch be req w = (answer, w0)" by (cases "fetch be req w")
  from fetch_world [OF f] assms f show ?thesis
    by (auto simp: makeGiteaRequest_def unauthorized_def dispatchEvent_def Let_def
        split: option.splits if_splits sum.splits)
qed

lemma this_makeRequest_world:
  assumes "this_makeRequest ad be req w = (res, w1)"
  shows "\<exists>answer r'. be req (remote w) = (answer, r') \<and> remote w1 = r'
           \<and> traffic w1 = traffic w @ [(req, answer)]
           \<and> events w1 = events w @ (if unauthorized answer then [''auth-error''] else [])
           \<and> console w1 = console w
           \<and> (\<forall>cs. res = Inr (ContentList cs) \<longrightarrow>
                 (\<exists>response. answer = Some response \<and> json response = Inr (ContentList cs)))"
  using assms makeRequest_world [of be req w res w1] makeGiteaRequest_world [of be req w res w1]
  by (cases ad) (simp_all add: this_makeRequest_def)

section \<open>Properties of the directory scan\<close>

text \<open>An invariant of the scan is shown once: it has to survive a listing that succeeds,
  where the directory may be added and its subdirectories are entered, and one that
  fails, where only the console changes.\<close>

lemma fold_invariant:
  "(\<And>x s. x \<in> set xs \<Longrightarrow> Q s \<Longrightarrow> Q (f x s)) \<Longrightarrow> Q s \<Longrightarrow> Q (fold f xs s)"
  by (induction xs arbitrary: s) auto

lemma scan_invariant:
  assumes step: "\<And>path fd w contents w1. Pre path \<Longrightarrow> Inv (fd, w) \<Longrightarrow>
            getRepoContents ad be path w = (Inr (ContentList contents), w1) \<Longrightarrow>
            Inv (if (\<exists>item \<in> set contents. gc_type item = ''file'' \<and> fileCheck (gc_name item)) \<and> path \<noteq> []
                 then add path fd else fd, w1)
            \<and> (\<forall>d \<in> set contents. gc_type d = ''dir'' \<and> toLowerCase (gc_name d) \<notin> set ignoredDirs
                   \<longrightarrow> Pre (gc_path d))"
    and fail: "\<And>path fd w res w1 line. Pre path \<Longrightarrow> Inv (fd, w) \<Longrightarrow>
            getRepoContents ad be path w = (res, w1) \<Longrightarrow>
            (\<forall>contents. res \<noteq> Inr (ContentList contents)) \<Longrightarrow> Inv (fd, console_log line w1)"
  shows "Pre path \<Longrightarrow> Inv st \<Longrightarrow> Inv (scanDirectoryGeneric ad be path depth maxDepth fileCheck st)"
  using step fail
proof (induction ad be path depth maxDepth fileCheck st rule: scanDirectoryGeneric.induct)
  case (1 ad be path depth maxDepth fileCheck foundDirs w)
  note step = "1.prems"(3) and fail = "1.prems"(4) and pre0 = "1.prems"(1) and inv0 = "1.prems"(2)
  show ?case
  proof (cases "maxDepth \<le> depth")
    case True
    then show ?thesis using inv0 by (simp add: scanDirectoryGeneric.simps)
  next
    case deeper: False
    obtain res w1 where g: "getRepoContents ad be path w = (res, w1)"
      by (cases "getRepoContents ad be path w")
    show ?thesis
    proof (cases "\<exists>contents. res = Inr (ContentList contents)")
      case True
      then obtain contents where res: "res = Inr (ContentList contents)" by blast
      let ?has = "\<exists>item \<in> set contents. gc_type item = ''file'' \<and> fileCheck (gc_name item)"
      let ?subDirs = "filter (\<lambda>item. \<not> (gc_type item = ''file'' \<and> fileCheck (gc_name item))
                                      \<and> gc_type item = ''dir''
                                      \<and> toLowerCase (gc_name item) \<notin> set ignoredDirs) contents"
      let ?fd1 = "if ?has \<and> path \<noteq> [] then add path foundDirs else foundDirs"
      from step [OF pre0 inv0 g [unfolded res]]
      have inv1: "Inv (?fd1, w1)"
        and pre: "\<And>d. d \<in> set ?subDirs \<Longrightarrow> Pre (gc_path d)"
        by auto
      have "Inv (fold (\<lambda>dir. scanDirectoryGeneric ad be (gc_path dir) (depth + 1) maxDepth fileCheck)
                   ?subDirs (?fd1, w1))"
      proof (rule fold_invariant [where Q = Inv])
        fix d s
        assume d: "d \<in> set ?subDirs" and s: "Inv s"
        show "Inv (scanDirectoryGeneric ad be (gc_path d) (depth + 1) maxDepth fileCheck s)"
          by (rule "1.IH" [OF deeper g [symmetric] res refl refl refl refl d pre [OF d] s step fail])
      qed (rule inv1)
      then show ?thesis
        using deeper g res by (simp add: scanDirectoryGeneric.simps [of ad be path])
    next
      case False
      then have "Inv (foundDirs, console_log (''Could not scan directory '' @ [CHR 0x27] @ path @ [CHR 0x27] @ '':'') w1)"
        using fail [OF pre0 inv0 g] by blast
      then show ?thesis
        using deeper g False
        by (simp add: scanDirectoryGeneric.simps [of ad be path] split: sum.splits payload.splits)
    qed
  qed
qed

lemma set_insort_by: "set (insort_by cmp x xs) = insert x (set xs)"
  by (induction xs) auto

lemma set_sort_by: "set (sort_by cmp xs) = set xs"
  by (induction xs) (auto simp: sort_by_def set_insort_by)

lemma set_sortPaths: "set (sortPaths lc paths preferred) = set paths"
  by (simp add: sortPaths_def set_sort_by)

lemma findIndex_range: "findIndex P xs < int (length xs) \<and> - 1 \<le> findIndex P xs"
  by (induction xs) (auto simp: Let_def)

lemma findIndex_found:
  "x \<in> set xs \<Longrightarrow> P x \<Longrightarrow> 0 \<le> findIndex P xs \<and> P (xs ! nat (findIndex P xs))"
proof (induction xs)
  case Nil
  then show ?case by simp
next
  case (Cons y ys)
  show ?case
  proof (cases "P y")
    case True
    then show ?thesis by simp
  next
    case False
    with Cons.prems have "x \<in> set ys" by auto
    from Cons.IH [OF this Cons.prems(2)] False show ?thesis
      by (simp add: Let_def nat_add_distrib)
  qed
qed

lemma set_promote:
  "i < length xs \<Longrightarrow> set (xs ! i # take i xs @ drop (Suc i) xs) = set xs"
proof -
  assume i: "i < length xs"
  then have "xs = take i xs @ xs ! i # drop (Suc i) xs"
    by (simp add: id_take_nth_drop)
  then have "set xs = set (take i xs @ xs ! i # drop (Suc i) xs)" by simp
  then show ?thesis by auto
qed

lemma scan_keeps_nonempty:
  "[] \<notin> set (fst st) \<Longrightarrow>
   [] \<notin> set (fst (scanDirectoryGeneric ad be path depth maxDepth fileCheck st))"
proof -
  assume a: "[] \<notin> set (fst st)"
  have "(\<lambda>s. [] \<notin> set (fst s)) (scanDirectoryGeneric ad be path depth maxDepth fileCheck st)"
    by (rule scan_invariant [where Pre = "\<lambda>p. True" and Inv = "\<lambda>s. [] \<notin> set (fst s)"])
       (auto simp: add_def a)
  then show ?thesis .
qed

text \<open>
  Claim C10. The lists returned by \<open>scanForContentDirectories\<close> and
  \<open>scanForImageDirectories\<close> never contain the empty path: the root of the repository
  is never reported, whatever the backend answers, also when the root itself holds
  matching files.
\<close>

theorem scan_results_exclude_root:
  "[] \<notin> set (fst (scanForContentDirectories ad be localeCompare w))
   \<and> [] \<notin> set (fst (scanForImageDirectories ad be localeCompare w))"
proof
  show "[] \<notin> set (fst (scanForContentDirectories ad be localeCompare w))"
    using scan_keeps_nonempty [of "([], w)" ad be "[]" 0 4 isMarkdown]
    by (auto simp: scanForContentDirectories_def set_sortPaths split: prod.splits)
next
  obtain foundDirs w1 where s: "scanDirectoryGeneric ad be [] 0 4 isImage ([], w) = (foundDirs, w1)"
    by (cases "scanDirectoryGeneric ad be [] 0 4 isImage ([], w)")
  have ne: "[] \<notin> set foundDirs"
    using scan_keeps_nonempty [of "([], w)" ad be "[]" 0 4 isImage] s by simp
  let ?sorted = "sortPaths localeCompare foundDirs [''images'', ''assets'', ''static'', ''public'']"
  let ?i = "findIndex (\<lambda>p. toLowerCase p = ''public/images'') ?sorted"
  have "nat ?i < length ?sorted" if "0 < ?i"
    using findIndex_range [of "\<lambda>p. toLowerCase p = ''public/images''" ?sorted] that by linarith
  then show "[] \<notin> set (fst (scanForImageDirectories ad be localeCompare w))"
    using ne s by (simp add: scanForImageDirectories_def Let_def set_promote set_sortPaths
        del: set_simps list.set)
qed

lemma lower_public_images: "toLowerCase ''public/images'' = ''public/images''"
  by (simp add: toLowerCase_def toLowerCaseChar_def)

lemma promoted_head:
  assumes "x \<in> set xs" and "P x"
  shows "P ((let i = findIndex P xs
             in if i > 0 then xs ! nat i # take (nat i) xs @ drop (Suc (nat i)) xs
                else xs) ! 0)"
proof -
  from findIndex_found [of x xs P, OF assms] have f: "0 \<le> findIndex P xs"
    and p: "P (xs ! nat (findIndex P xs))" by auto
  show ?thesis
  proof (cases "findIndex P xs > 0")
    case True
    then show ?thesis using p by (simp add: Let_def)
  next
    case False
    with f have "findIndex P xs = 0" by simp
    then show ?thesis using p by (simp add: Let_def)
  qed
qed

text \<open>
  Claim C5, as amended. When \<open>public/images\<close> is among the directories found by
  \<open>scanForImageDirectories\<close>, the entry at index 0 of the returned list is a path that
  lower-cases to \<open>public/images\<close>; it is \<open>public/images\<close> itself when no other found
  directory differs from it only in the case of its letters.
\<close>

theorem public_images_ranked_first:
  assumes run: "scanForImageDirectories ad be localeCompare w = (ranked, w')"
    and found: "''public/images'' \<in> set ranked"
  shows "toLowerCase (ranked ! 0) = ''public/images''
         \<and> ((\<forall>q \<in> set ranked. toLowerCase q = ''public/images'' \<longrightarrow> q = ''public/images'')
              \<longrightarrow> ranked ! 0 = ''public/images'')"
proof -
  obtain foundDirs w1 where s: "scanDirectoryGeneric ad be [] 0 4 isImage ([], w) = (foundDirs, w1)"
    by (cases "scanDirectoryGeneric ad be [] 0 4 isImage ([], w)")
  let ?P = "\<lambda>p. toLowerCase p = ''public/images''"
  let ?sorted = "sortPaths localeCompare foundDirs [''images'', ''assets'', ''static'', ''public'']"
  let ?i = "findIndex ?P ?sorted"
  have ranked: "ranked = (let i = ?i in if i > 0
                  then ?sorted ! nat i # take (nat i) ?sorted @ drop (Suc (nat i)) ?sorted
                  else ?sorted)"
    using run s by (auto simp: scanForImageDirectories_def Let_def)
  have "nat ?i < length ?sorted" if "0 < ?i"
    using findIndex_range [of ?P ?sorted] that by linarith
  then have "set ranked = set ?sorted"
    unfolding ranked by (simp add: Let_def set_promote del: set_simps list.set)
  with found have in_sorted: "''public/images'' \<in> set ?sorted" by simp
  have low: "toLowerCase (ranked ! 0) = ''public/images''"
    unfolding ranked using promoted_head [of "''public/images''" ?sorted ?P, OF in_sorted lower_public_images]
    by simp
  moreover have "ranked ! 0 \<in> set ranked"
    using found by (cases ranked) auto
  ultimately show ?thesis by blast
qed







theorem public_images_ranked_first_witness:
  "fst (scanForImageDirectories GithubAdapter (static sampleSite) codeOrder (fresh ())) ! 0
     = ''public/images''"
proof -
  let ?run = "scanForImageDirectories GithubAdapter (static sampleSite) codeOrder (fresh ())"
  have r: "?run = (fst ?run, snd ?run)" by simp
  have v: "fst ?run = [''public/images'', ''assets'']" by code_simp
  have m: "''public/images'' \<in> set (fst ?run)" unfolding v by simp
  have u: "\<forall>q \<in> set (fst ?run). toLowerCase q = ''public/images'' \<longrightarrow> q = ''public/images''"
    unfolding v by (simp add: toLowerCase_def toLowerCaseChar_def)
  from public_images_ranked_first [OF r m] u show ?thesis by blast
qed

text \<open>
  Claim C5, as stated, fails: the program promotes the first path of the sorted list that
  equals \<open>public/images\<close> after lower-casing, and among paths that differ only in case
  the sorted order is that of \<open>localeCompare\<close>. Where that comparison puts capitals first
  (as a comparison by character code does, and the collations that rank upper case
  first), \<open>Public/Images\<close> takes index 0 although \<open>public/images\<close> was found too.
\<close>

theorem public_images_ranked_first_counterexample:
  "''public/images''
     \<in> set (fst (scanForImageDirectories GithubAdapter (static sampleCase) codeOrder (fresh ())))
   \<and> ''Public/Images''
     \<in> set (fst (scanForImageDirectories GithubAdapter (static sampleCase) codeOrder (fresh ())))
   \<and> fst (scanForImageDirectories GithubAdapter (static sampleCase) codeOrder (fresh ())) ! 0
     \<noteq> ''public/images''"
proof -
  have "fst (scanForImageDirectories GithubAdapter (static sampleCase) codeOrder (fresh ()))
          = [''Public/Images'', ''public/images'']"
    by code_simp
  then show ?thesis by simp
qed

section \<open>The session-invalid signal\<close>

lemma signalled_refl: "signalled w w"
  by (simp add: signalled_def)

lemma signalled_trans: "signalled w w1 \<Longrightarrow> signalled w1 w2 \<Longrightarrow> signalled w w2"
  unfolding signalled_def
  by (elim exE conjE, rule_tac x = "ts @ tsa" in exI) (simp add: replicate_add)

lemma signalled_console_log: "signalled w w1 \<Longrightarrow> signalled w (console_log line w1)"
  by (simp add: signalled_def console_log_def)

lemma signalled_request:
  "this_makeRequest ad be req w = (res, w1) \<Longrightarrow> signalled w w1"
  by (drule this_makeRequest_world) (auto simp: signalled_def)

lemma signalled_request': "signalled w (snd (this_makeRequest ad be req w))"
  by (rule signalled_request [of ad be req w "fst (this_makeRequest ad be req w)"]) simp

lemma signalled_then:
  "signalled w0 w \<Longrightarrow> this_makeRequest ad be req w = (res, w1) \<Longrightarrow> signalled w0 w1"
  by (blast intro: signalled_trans signalled_request)

lemma signalled_getFileSha: "getFileSha ad be path w = (res, w1) \<Longrightarrow> signalled w w1"
  by (auto simp: getFileSha_def split: prod.splits sum.splits error.splits if_splits
      dest: signalled_request)

lemma signalled_getRepoContents: "getRepoContents ad be path w = (res, w1) \<Longrightarrow> signalled w w1"
  by (auto simp: getRepoContents_def dest: signalled_request)

lemma signalled_getRepoDetails: "getRepoDetails ad be w = (res, w1) \<Longrightarrow> signalled w w1"
  by (auto simp: getRepoDetails_def dest: signalled_request)

lemma signalled_base_listFiles:
  "BaseGitService_listFiles ad be path w = (res, w1) \<Longrightarrow> signalled w w1"
  by (auto simp: BaseGitService_listFiles_def split: prod.splits sum.splits payload.splits
      dest!: signalled_getRepoContents intro: signalled_console_log)

lemma signalled_getFileContent: "getFileContent ad be path w = (res, w1) \<Longrightarrow> signalled w w1"
  by (auto simp: getFileContent_def split: prod.splits sum.splits dest: signalled_request)

lemma signalled_listFiles: "listFiles ad be path w = (res, w1) \<Longrightarrow> signalled w w1"
proof -
  assume a: "listFiles ad be path w = (res, w1)"
  obtain d wa where d: "getRepoDetails ad be w = (d, wa)" by (cases "getRepoDetails ad be w")
  have s1: "signalled w wa" by (rule signalled_getRepoDetails [OF d])
  have fallback: "signalled w w1"
    if "BaseGitService_listFiles ad be path (console_log line wb) = (res, w1)" "signalled w wb"
    for line wb
    using that by (blast intro: signalled_trans signalled_console_log signalled_base_listFiles)
  show ?thesis
  proof (cases d)
    case (Inl e)
    with a d s1 show ?thesis
      by (auto simp: listFiles_def Let_def intro: fallback)
  next
    case (Inr repo)
    let ?branch = "case default_branch_field repo of None \<Rightarrow> ''undefined'' | Some b \<Rightarrow> b"
    obtain t wb where t: "this_makeRequest ad be (get (Trees ?branch)) wa = (t, wb)"
      by (cases "this_makeRequest ad be (get (Trees ?branch)) wa")
    have s2: "signalled w wb" by (rule signalled_then [OF s1 t])
    show ?thesis
      using a d Inr t s2
      by (auto simp: listFiles_def Let_def split: sum.splits payload.splits if_splits
          intro: fallback signalled_console_log)
  qed
qed

lemma signalled_uploadFile:
  "uploadFile ad be f2b path f0 commitMessage sha w = (res, w1) \<Longrightarrow> signalled w w1"
  by (auto simp: uploadFile_def split: sum.splits prod.splits if_splits adapter.splits
      dest!: signalled_getFileSha signalled_request intro: signalled_refl signalled_trans)

lemma signalled_createFileFromString:
  "createFileFromString ad be path newContent commitMessage w = (res, w1) \<Longrightarrow> signalled w w1"
  by (auto simp: createFileFromString_def split: sum.splits prod.splits if_splits
      dest!: signalled_getFileSha signalled_request intro: signalled_refl signalled_trans)

lemma signalled_updateFileContent:
  "updateFileContent ad be path newContent commitMessage sha w = (res, w1) \<Longrightarrow> signalled w w1"
  by (auto simp: updateFileContent_def split: sum.splits prod.splits if_splits adapter.splits
      dest!: signalled_request intro: signalled_refl)

lemma signalled_deleteFile:
  "deleteFile ad be path sha commitMessage w = (res, w1) \<Longrightarrow> signalled w w1"
  by (auto simp: deleteFile_def dest!: signalled_request)

lemma signalled_getFileAsBlob: "getFileAsBlob ad be path w = (res, w1) \<Longrightarrow> signalled w w1"
  by (auto simp: getFileAsBlob_def split: sum.splits prod.splits if_splits option.splits
      dest!: signalled_request)

lemma signalled_scan:
  "signalled w0 (snd st) \<Longrightarrow>
   signalled w0 (snd (scanDirectoryGeneric ad be path depth maxDepth fileCheck st))"
proof -
  assume a: "signalled w0 (snd st)"
  show ?thesis
    by (rule scan_invariant [where Pre = "\<lambda>p. True" and Inv = "\<lambda>s. signalled w0 (snd s)"])
       (auto simp: a intro: signalled_trans signalled_console_log dest: signalled_getRepoContents)
qed

lemma signalled_scanForContentDirectories:
  "scanForContentDirectories ad be lc w = (res, w1) \<Longrightarrow> signalled w w1"
  using signalled_scan [of w "([], w)" ad be "[]" 0 4 isMarkdown]
  by (auto simp: scanForContentDirectories_def signalled_refl split: prod.splits)

lemma signalled_scanForImageDirectories:
  "scanForImageDirectories ad be lc w = (res, w1) \<Longrightarrow> signalled w w1"
  using signalled_scan [of w "([], w)" ad be "[]" 0 4 isImage]
  by (auto simp: scanForImageDirectories_def Let_def signalled_refl split: prod.splits if_splits)

lemma signalled_scanFiles:
  "signalled w0 w \<Longrightarrow> scanFiles ad be ex fs w = (res, w1) \<Longrightarrow> signalled w0 w1"
proof (induction fs arbitrary: w)
  case Nil
  then show ?case by simp
next
  case (Cons f0 fs)
  obtain c wa where c: "getFileContent ad be (fst f0) w = (c, wa)"
    by (cases "getFileContent ad be (fst f0) w")
  have s: "signalled w0 wa"
    using Cons.prems(1) signalled_getFileContent [OF c] by (blast intro: signalled_trans)
  show ?case
    using Cons.prems(2) c s Cons.IH [OF s]
    by (auto split: sum.splits option.splits prod.splits if_splits)
qed

lemma signalled_findProductionUrl:
  "findProductionUrl ad be ex jp w = (res, w1) \<Longrightarrow> signalled w w1"
proof -
  assume a: "findProductionUrl ad be ex jp w = (res, w1)"
  obtain u wa where u: "scanFiles ad be ex filesToScan w = (u, wa)"
    by (cases "scanFiles ad be ex filesToScan w")
  have s: "signalled w wa" by (rule signalled_scanFiles [OF signalled_refl u])
  obtain c wb where c: "getFileContent ad be ''package.json'' wa = (c, wb)"
    by (cases "getFileContent ad be ''package.json'' wa")
  have s2: "signalled w wb"
    using s signalled_getFileContent [OF c] by (blast intro: signalled_trans)
  show ?thesis
    using a u c s s2
    by (auto simp: findProductionUrl_def split: option.splits sum.splits json_value.splits if_splits)
qed

lemma signalled_processItem: "processItem ad be item w = (res, w1) \<Longrightarrow> signalled w w1"
  by (auto simp: processItem_def signalled_refl split: if_splits prod.splits sum.splits payload.splits
      dest!: signalled_getRepoContents)

lemma signalled_traverse:
  assumes f: "\<And>x w res w1. f x w = (res, w1) \<Longrightarrow> signalled w w1"
  shows "signalled w0 w \<Longrightarrow> traverse f xs w = (res, w1) \<Longrightarrow> signalled w0 w1"
proof (induction xs arbitrary: w res)
  case Nil
  then show ?case by simp
next
  case (Cons x xs)
  obtain y wa where y: "f x w = (y, wa)" by (cases "f x w")
  obtain ys wb where ys: "traverse f xs wa = (ys, wb)" by (cases "traverse f xs wa")
  have "signalled w0 wa" using Cons.prems(1) f [OF y] by (blast intro: signalled_trans)
  moreover have "wb = w1" using Cons.prems(2) y ys by simp
  ultimately show ?case using Cons.IH [of wa ys] ys by simp
qed

lemma signalled_getRepoTree: "getRepoTree ad be lc path w = (res, w1) \<Longrightarrow> signalled w w1"
proof -
  assume a: "getRepoTree ad be lc path w = (res, w1)"
  obtain c wa where c: "getRepoContents ad be path w = (c, wa)"
    by (cases "getRepoContents ad be path w")
  have s: "signalled w wa" by (rule signalled_getRepoContents [OF c])
  show ?thesis
    using a c s signalled_traverse [of "processItem ad be" w wa, OF signalled_processItem s]
    by (auto simp: getRepoTree_def split: sum.splits payload.splits prod.splits)
qed

lemma signalled_perform: "signalled w (perform ad be h c w)"
proof (cases c)
  case (GetRepoContents path)
  then show ?thesis
    using signalled_getRepoContents [of ad be path w] by (simp add: perform_def prod_eq_iff)
next
  case (ListFiles path)
  then show ?thesis
    using signalled_listFiles [of ad be path w] by (simp add: perform_def prod_eq_iff)
next
  case (GetFileContent path)
  then show ?thesis
    using signalled_getFileContent [of ad be path w] by (simp add: perform_def prod_eq_iff)
next
  case (UploadFile path f0 commitMessage sha)
  then show ?thesis
    using signalled_uploadFile [of ad be "host_fileToBase64 h" path f0 commitMessage sha w]
    by (simp add: perform_def prod_eq_iff)
next
  case (CreateFileFromString path newContent commitMessage)
  then show ?thesis
    using signalled_createFileFromString [of ad be path newContent commitMessage w]
    by (simp add: perform_def prod_eq_iff)
next
  case (UpdateFileContent path newContent commitMessage sha)
  then show ?thesis
    using signalled_updateFileContent [of ad be path newContent commitMessage sha w]
    by (simp add: perform_def prod_eq_iff)
next
  case (DeleteFile path sha commitMessage)
  then show ?thesis
    using signalled_deleteFile [of ad be path sha commitMessage w]
    by (simp add: perform_def prod_eq_iff)
next
  case (GetFileAsBlob path)
  then show ?thesis
    using signalled_getFileAsBlob [of ad be path w] by (simp add: perform_def prod_eq_iff)
next
  case ScanForContentDirectories
  then show ?thesis
    using signalled_scanForContentDirectories [of ad be "host_localeCompare h" w]
    by (simp add: perform_def prod_eq_iff)
next
  case ScanForImageDirectories
  then show ?thesis
    using signalled_scanForImageDirectories [of ad be "host_localeCompare h" w]
    by (simp add: perform_def prod_eq_iff)
next
  case FindProductionUrl
  then show ?thesis
    using signalled_findProductionUrl [of ad be "host_exec h" "host_JSON_parse h" w]
    by (simp add: perform_def prod_eq_iff)
next
  case (GetRepoTree path)
  then show ?thesis
    using signalled_getRepoTree [of ad be "host_localeCompare h" path w]
    by (simp add: perform_def prod_eq_iff)
next
  case GetRepoDetails
  then show ?thesis
    using signalled_getRepoDetails [of ad be w] by (simp add: perform_def prod_eq_iff)
qed

text \<open>
  Claim C7. Whatever operation of the interface is performed, on either adapter and
  against any backend, the events dispatched during it are exactly one \<open>auth-error\<close> for
  each answer with status 401 that was received; so whenever the backend answers with
  401, the event has been dispatched when the operation completes. (The request function
  also raises \<open>Unauthorized\<close>; \<open>listFiles\<close>, the scans and \<open>findProductionUrl\<close> catch
  it, the other operations pass it on.)
\<close>

theorem auth_failure_is_signalled:
  assumes "perform ad be h c (fresh r) = w'"
  shows "events w' = replicate (length (filter (\<lambda>t. unauthorized (snd t)) (traffic w')))
                       ''auth-error''
         \<and> ((\<exists>t \<in> set (traffic w'). unauthorized (snd t)) \<longrightarrow> ''auth-error'' \<in> set (events w'))"
proof -
  have "signalled (fresh r) w'"
    using signalled_perform [of "fresh r" ad be h c] assms by simp
  then have e: "events w' = replicate (length (filter (\<lambda>t. unauthorized (snd t)) (traffic w')))
                              ''auth-error''"
    by (auto simp: signalled_def fresh_def)
  have "filter (\<lambda>t. unauthorized (snd t)) (traffic w') \<noteq> []"
    if "\<exists>t \<in> set (traffic w'). unauthorized (snd t)"
    using that by (auto simp: filter_empty_conv)
  then show ?thesis using e by auto
qed

theorem auth_failure_is_signalled_witness:
  "traffic (perform GithubAdapter (static rejecting) sampleHost (ListFiles ''posts'') (fresh ()))
     = [(get Repo, rejecting (get Repo)),
        (get (Contents ''posts''), rejecting (get (Contents ''posts'')))]
   \<and> events (perform GithubAdapter (static rejecting) sampleHost (ListFiles ''posts'') (fresh ()))
     = [''auth-error'', ''auth-error'']"
proof -
  let ?w = "perform GithubAdapter (static rejecting) sampleHost (ListFiles ''posts'') (fresh ())"
  have t: "traffic ?w = [(get Repo, rejecting (get Repo)),
                         (get (Contents ''posts''), rejecting (get (Contents ''posts'')))]"
    by code_simp
  have "events ?w = replicate (length (filter (\<lambda>t. unauthorized (snd t)) (traffic ?w)))
                      ''auth-error''"
    using auth_failure_is_signalled [of GithubAdapter "static rejecting" sampleHost
        "ListFiles ''posts''" "()" ?w] by simp
  then have "events ?w = [''auth-error'', ''auth-error'']"
    unfolding t by (simp add: unauthorized_def rejecting_def respond_def)
  with t show ?thesis by simp
qed

section \<open>Requests that are answered\<close>

lemma this_makeRequest_ok:
  assumes "be req (remote w) = (Some response, r')" and "ok response" and "json response = Inr d"
  shows "this_makeRequest ad be req w
           = (Inr d, w\<lparr>remote := r', traffic := traffic w @ [(req, Some response)]\<rparr>)"
  using assms
  by (cases ad) (auto simp: this_makeRequest_def makeRequest_def makeGiteaRequest_def fetch_def ok_def)

text \<open>
  Claim C6. Let the backend answer the request for the repository with its details and the
  request for the recursive tree of the default branch with a tree whose \<open>truncated\<close> flag
  is true. Then \<open>listFiles\<close> returns the blobs of that (possibly incomplete) tree that
  lie below the path, all of type \<open>file\<close>; the truncation is one line on the console;
  and no further request is sent: the default implementation is not fallen back to.
  (\<open>listFiles\<close> has no failing result at all: its type is a list.)
\<close>

theorem truncated_tree_is_returned:
  assumes repo: "be (get Repo) (remote w) = (Some repoResponse, r1)"
    and repo_ok: "ok repoResponse" "json repoResponse = Inr (RepoData repo)"
    and tree: "be (get (Trees (default_branch repo))) r1 = (Some treeResponse, r2)"
    and tree_ok: "ok treeResponse" "json treeResponse = Inr (TreeData tree True)"
    and run: "listFiles ad be path w = (items, w')"
  shows "map rt_path items
           = filter (\<lambda>p. path = [] \<or> startsWith p (if endsWith path ''/'' then path else path @ ''/''))
               (map te_path (filter (\<lambda>item. te_type item = ''blob'') tree))
         \<and> (\<forall>item \<in> set items. rt_type item = ''file'')
         \<and> console w' = console w @ [truncationWarning ad]
         \<and> traffic w' = traffic w @ [(get Repo, Some repoResponse),
                                      (get (Trees (default_branch repo)), Some treeResponse)]"
proof -
  let ?w1 = "w\<lparr>remote := r1, traffic := traffic w @ [(get Repo, Some repoResponse)]\<rparr>"
  have d: "getRepoDetails ad be w = (Inr (RepoData repo), ?w1)"
    unfolding getRepoDetails_def
    by (rule this_makeRequest_ok [where be = be and req = "get Repo" and w = w, OF repo repo_ok])
  have "be (get (Trees (default_branch repo))) (remote ?w1) = (Some treeResponse, r2)"
    using tree by simp
  from this_makeRequest_ok [where be = be and req = "get (Trees (default_branch repo))"
      and w = ?w1 and ad = ad, OF this tree_ok]
  have t: "this_makeRequest ad be (get (Trees (default_branch repo))) ?w1
             = (Inr (TreeData tree True),
                ?w1\<lparr>remote := r2,
                     traffic := traffic ?w1 @ [(get (Trees (default_branch repo)), Some treeResponse)]\<rparr>)" .
  let ?normalizedPath = "if path \<noteq> [] then (if endsWith path ''/'' then path else path @ ''/'') else []"
  have "listFiles ad be path w
          = (map (\<lambda>item. \<lparr>rt_path = te_path item, rt_name = lastSegment (te_path item),
                             rt_type = ''file'', rt_hasMarkdown = None,
                             rt_sha = Some (te_sha item), rt_size = te_size item\<rparr>)
               (filter (\<lambda>item. te_type item = ''blob''
                          \<and> (?normalizedPath = [] \<or> startsWith (te_path item) ?normalizedPath)) tree),
             console_log (truncationWarning ad)
               (?w1\<lparr>remote := r2,
                     traffic := traffic ?w1 @ [(get (Trees (default_branch repo)), Some treeResponse)]\<rparr>))"
    by (simp add: listFiles_def d t Let_def default_branch_field_def truncationWarning_def)
  with run have items: "items = map (\<lambda>item. \<lparr>rt_path = te_path item, rt_name = lastSegment (te_path item),
                             rt_type = ''file'', rt_hasMarkdown = None,
                             rt_sha = Some (te_sha item), rt_size = te_size item\<rparr>)
               (filter (\<lambda>item. te_type item = ''blob''
                          \<and> (?normalizedPath = [] \<or> startsWith (te_path item) ?normalizedPath)) tree)"
    and w': "w' = console_log (truncationWarning ad)
               (?w1\<lparr>remote := r2,
                     traffic := traffic ?w1 @ [(get (Trees (default_branch repo)), Some treeResponse)]\<rparr>)"
    by simp_all
  have "map rt_path items
           = filter (\<lambda>p. path = [] \<or> startsWith p (if endsWith path ''/'' then path else path @ ''/''))
               (map te_path (filter (\<lambda>item. te_type item = ''blob'') tree))"
    unfolding items by (auto simp: filter_map comp_def intro: filter_cong)
  moreover have "\<forall>item \<in> set items. rt_type item = ''file''"
    unfolding items by simp
  moreover have "console w' = console w @ [truncationWarning ad]"
    unfolding w' by (simp add: console_log_def)
  moreover have "traffic w' = traffic w @ [(get Repo, Some repoResponse),
                                      (get (Trees (default_branch repo)), Some treeResponse)]"
    unfolding w' by (simp add: console_log_def)
  ultimately show ?thesis by blast
qed

theorem truncated_tree_is_returned_witness:
  "map rt_path (fst (listFiles GithubAdapter (static sampleTruncated) ''posts'' (fresh ())))
     = [''posts/a.md'']
   \<and> console (snd (listFiles GithubAdapter (static sampleTruncated) ''posts'' (fresh ())))
     = [truncationWarning GithubAdapter]"
proof -
  let ?tree = "[\<lparr>te_path = ''posts'', te_type = ''tree'', te_sha = ''0a'', te_size = None\<rparr>,
               \<lparr>te_path = ''posts/a.md'', te_type = ''blob'', te_sha = ''0b'', te_size = Some 1\<rparr>,
               \<lparr>te_path = ''readme.md'', te_type = ''blob'', te_sha = ''0c'', te_size = Some 1\<rparr>]"
  let ?repoResponse = "\<lparr>status = 200, statusText = ''OK'', json = Inr (RepoData \<lparr>default_branch = ''main''\<rparr>)\<rparr>"
  let ?treeResponse = "\<lparr>status = 200, statusText = ''OK'', json = Inr (TreeData ?tree True)\<rparr>"
  let ?run = "listFiles GithubAdapter (static sampleTruncated) ''posts'' (fresh ())"
  have 1: "static sampleTruncated (get Repo) (remote (fresh ())) = (Some ?repoResponse, ())"
    by (simp add: static_def sampleTruncated_def get_def respond_def)
  have 2: "static sampleTruncated (get (Trees (default_branch \<lparr>default_branch = ''main''\<rparr>))) ()
             = (Some ?treeResponse, ())"
    by (simp add: static_def sampleTruncated_def get_def respond_def)
  have 3: "?run = (fst ?run, snd ?run)" by simp
  from truncated_tree_is_returned [where be = "static sampleTruncated" and w = "fresh ()"
      and ad = GithubAdapter and path = "''posts''", OF 1 _ _ 2 _ _ 3]
  show ?thesis
    by (simp add: ok_def startsWith_def endsWith_def fresh_def)
qed


section \<open>Create and update\<close>



lemma unat_byte: "unat (b :: 8 word) < 256"
  using unsigned_less [of b, where ?'a = nat] by simp

lemma unat_byte_as_unit: "unat (ucast (b :: 8 word) :: 16 word) = unat b"
proof -
  have "unat b < 2 ^ 16" using unat_byte [of b] by simp
  then show ?thesis by (simp add: unsigned_ucast_eq take_bit_nat_eq_self)
qed

lemma base64Encode_total:
  "base64Encode str = Inr (map of_nat (encodeGroups (map unat (TextEncoder_encode str))))"
proof -
  have "\<not> (\<exists>u \<in> set (map (\<lambda>b. of_nat (unat b) :: 16 word) (TextEncoder_encode str)). 255 < unat u)"
  proof
    assume "\<exists>u \<in> set (map (\<lambda>b. of_nat (unat b) :: 16 word) (TextEncoder_encode str)). 255 < unat u"
    then obtain b :: "8 word" where "255 < unat (ucast b :: 16 word)" by auto
    then have "255 < unat b" by (simp add: unat_byte_as_unit)
    then show False using unat_byte [of b] by simp
  qed
  then show ?thesis
    by (simp add: base64Encode_def btoa_def Let_def comp_def unat_byte_as_unit)
qed










lemma carried_GithubAdapter: "\<exists>c. carried GithubAdapter newContent = Some c"
  by (simp add: carried_def base64Encode_total)






section \<open>The two ways of listing\<close>

lemma startsWith_Nil [simp]: "startsWith s []"
  by (simp add: startsWith_def)

lemma request_notFound:
  assumes "be req (remote w) = (notFound, r')"
  shows "\<exists>e. this_makeRequest ad be req w
           = (Inl e, w\<lparr>remote := r', traffic := traffic w @ [(req, notFound)]\<rparr>)"
  using assms
  by (cases ad)
     (simp_all add: this_makeRequest_def makeRequest_def makeGiteaRequest_def fetch_def notFound_def
        respond_def ok_def Let_def)

lemma serve_repo:
  "token_valid r \<Longrightarrow>
   serve hash (get Repo) r
     = (Some \<lparr>status = 200, statusText = ''OK'', json = Inr (RepoData \<lparr>default_branch = branch r\<rparr>)\<rparr>, r)"
  by (simp add: serve_def get_def respond_def)

lemma serve_tree:
  "token_valid r \<Longrightarrow> tree_api r \<Longrightarrow> length (treeEntries hash r) \<le> tree_limit r \<Longrightarrow>
   resource (branch r) = branch r \<Longrightarrow>
   serve hash (get (Trees (branch r))) r
     = (Some \<lparr>status = 200, statusText = ''OK'', json = Inr (TreeData (treeEntries hash r) False)\<rparr>, r)"
  by (simp add: serve_def get_def respond_def)

lemma serve_no_tree:
  "token_valid r \<Longrightarrow> \<not> tree_api r \<Longrightarrow> serve hash (get (Trees b)) r = (notFound, r)"
  by (simp add: serve_def get_def)

lemma serve_listing:
  "token_valid r \<Longrightarrow> map_of (files r) (resource path) = None \<Longrightarrow>
   serve hash (get (Contents path)) r
     = (if isDirectory r (resource path)
        then (Some \<lparr>status = 200, statusText = ''OK'',
                    json = Inr (ContentList (listing hash r (resource path)))\<rparr>, r)
        else (notFound, r))"
  by (simp add: serve_def serveContents_def get_def respond_def)

lemma blob_paths:
  "map te_path (filter (\<lambda>item. te_type item = ''blob'' \<and> P (te_path item)) (treeEntries hash r))
     = filter P (map fst (files r))"
  by (simp add: treeEntries_def filter_map comp_def)

lemma fast_items:
  assumes "token_valid r" "tree_api r" "length (treeEntries hash r) \<le> tree_limit r"
    "resource (branch r) = branch r"
  shows "fst (listFiles ad (serve hash) path (fresh r))
           = map (\<lambda>item. \<lparr>rt_path = te_path item, rt_name = lastSegment (te_path item),
                           rt_type = ''file'', rt_hasMarkdown = None,
                           rt_sha = Some (te_sha item), rt_size = te_size item\<rparr>)
               (filter (\<lambda>item. te_type item = ''blob''
                          \<and> (dirPrefix path = [] \<or> startsWith (te_path item) (dirPrefix path)))
                  (treeEntries hash r))"
proof -
  let ?w1 = "(fresh r)\<lparr>remote := r, traffic := traffic (fresh r) @ [(get Repo, Some \<lparr>status = 200, statusText = ''OK'', json = Inr (RepoData \<lparr>default_branch = branch r\<rparr>)\<rparr>)]\<rparr>"
  have d: "getRepoDetails ad (serve hash) (fresh r) = (Inr (RepoData \<lparr>default_branch = branch r\<rparr>), ?w1)"
    unfolding getRepoDetails_def
    by (rule this_makeRequest_ok [where be = "serve hash" and req = "get Repo"])
       (simp_all add: serve_repo assms fresh_def ok_def)
  have "\<exists>w2. this_makeRequest ad (serve hash) (get (Trees (branch r))) ?w1
             = (Inr (TreeData (treeEntries hash r) False), w2)"
    using this_makeRequest_ok [where be = "serve hash" and req = "get (Trees (branch r))"
        and w = ?w1 and ad = ad and d = "TreeData (treeEntries hash r) False"]
    by (simp add: serve_tree assms ok_def)
  then obtain w2 where t: "this_makeRequest ad (serve hash) (get (Trees (branch r))) ?w1
             = (Inr (TreeData (treeEntries hash r) False), w2)" by blast
  show ?thesis
    by (simp add: listFiles_def d t Let_def default_branch_field_def dirPrefix_def comp_def)
qed

lemma fast_paths:
  assumes "token_valid r" "tree_api r" "length (treeEntries hash r) \<le> tree_limit r"
    "resource (branch r) = branch r"
  shows "map rt_path (fst (listFiles ad (serve hash) path (fresh r)))
           = filter (\<lambda>p. startsWith p (dirPrefix path)) (map fst (files r))"
proof -
  have "map rt_path (fst (listFiles ad (serve hash) path (fresh r)))
          = map te_path (filter (\<lambda>item. te_type item = ''blob''
                                  \<and> (dirPrefix path = [] \<or> startsWith (te_path item) (dirPrefix path)))
                          (treeEntries hash r))"
    by (simp add: fast_items [OF assms] comp_def)
  also have "\<dots> = filter (\<lambda>p. dirPrefix path = [] \<or> startsWith p (dirPrefix path)) (map fst (files r))"
    by (rule blob_paths)
  also have "\<dots> = filter (\<lambda>p. startsWith p (dirPrefix path)) (map fst (files r))"
    by (rule filter_cong) auto
  finally show ?thesis .
qed


lemma base_items:
  assumes "token_valid (remote w)" "map_of (files (remote w)) (resource path) = None"
  shows "fst (BaseGitService_listFiles ad (serve hash) path w)
           = (if isDirectory (remote w) (resource path)
              then map (\<lambda>item. \<lparr>rt_path = gc_path item, rt_name = gc_name item,
                         rt_type = (if gc_type item = ''file'' then ''file'' else ''dir''),
                         rt_hasMarkdown = None, rt_sha = Some (gc_sha item),
                         rt_size = Some (gc_size item)\<rparr>) (listing hash (remote w) (resource path))
              else [])"
proof (cases "isDirectory (remote w) (resource path)")
  case True
  have "\<exists>w1. getRepoContents ad (serve hash) path w
               = (Inr (ContentList (listing hash (remote w) (resource path))), w1)"
    unfolding getRepoContents_def
    using this_makeRequest_ok [where be = "serve hash" and req = "get (Contents path)" and w = w
        and ad = ad and d = "ContentList (listing hash (remote w) (resource path))"]
    by (simp add: serve_listing assms True ok_def)
  then show ?thesis using True by (auto simp: BaseGitService_listFiles_def)
next
  case False
  have "\<exists>e w1. getRepoContents ad (serve hash) path w = (Inl e, w1)"
    unfolding getRepoContents_def
    using request_notFound [where be = "serve hash" and req = "get (Contents path)" and w = w and ad = ad]
    by (simp add: serve_listing assms False) blast
  then show ?thesis using False by (auto simp: BaseGitService_listFiles_def)
qed

lemma fallback_items:
  assumes "token_valid r" "\<not> tree_api r" "map_of (files r) (resource path) = None"
  shows "fst (listFiles ad (serve hash) path (fresh r))
           = (if isDirectory r (resource path)
              then map (\<lambda>item. \<lparr>rt_path = gc_path item, rt_name = gc_name item,
                         rt_type = (if gc_type item = ''file'' then ''file'' else ''dir''),
                         rt_hasMarkdown = None, rt_sha = Some (gc_sha item),
                         rt_size = Some (gc_size item)\<rparr>) (listing hash r (resource path))
              else [])"
proof -
  let ?w1 = "(fresh r)\<lparr>remote := r, traffic := traffic (fresh r) @ [(get Repo, Some \<lparr>status = 200, statusText = ''OK'', json = Inr (RepoData \<lparr>default_branch = branch r\<rparr>)\<rparr>)]\<rparr>"
  have d: "getRepoDetails ad (serve hash) (fresh r) = (Inr (RepoData \<lparr>default_branch = branch r\<rparr>), ?w1)"
    unfolding getRepoDetails_def
    by (rule this_makeRequest_ok [where be = "serve hash" and req = "get Repo"])
       (simp_all add: serve_repo assms fresh_def ok_def)
  let ?w2 = "?w1\<lparr>remote := r, traffic := traffic ?w1 @ [(get (Trees (branch r)), notFound)]\<rparr>"
  have "\<exists>e. this_makeRequest ad (serve hash) (get (Trees (branch r))) ?w1 = (Inl e, ?w2)"
    by (rule request_notFound) (simp add: serve_no_tree assms)
  then obtain e where t: "this_makeRequest ad (serve hash) (get (Trees (branch r))) ?w1 = (Inl e, ?w2)"
    by blast
  have "fst (listFiles ad (serve hash) path (fresh r))
          = fst (BaseGitService_listFiles ad (serve hash) path
                   (console_log (case ad of GithubAdapter \<Rightarrow> ''Tree API failed, falling back to contents API''
                                          | BaseGiteaAdapter \<Rightarrow> ''Tree API failed, falling back'') ?w2))"
    by (simp add: listFiles_def d t Let_def default_branch_field_def)
  also have "\<dots> = (if isDirectory r (resource path)
              then map (\<lambda>item. \<lparr>rt_path = gc_path item, rt_name = gc_name item,
                         rt_type = (if gc_type item = ''file'' then ''file'' else ''dir''),
                         rt_hasMarkdown = None, rt_sha = Some (gc_sha item),
                         rt_size = Some (gc_size item)\<rparr>) (listing hash r (resource path))
              else [])"
    using base_items [where w = "console_log (case ad of GithubAdapter \<Rightarrow> ''Tree API failed, falling back to contents API''
                                          | BaseGiteaAdapter \<Rightarrow> ''Tree API failed, falling back'') ?w2" and path = path and ad = ad and hash = hash]
    by (simp add: console_log_def assms)
  finally show ?thesis .
qed

lemma length_parents: "length (parents f) \<le> length f"
  unfolding parents_def by (simp add: le_trans [OF length_filter_le])

lemma length_treeEntries:
  "length (treeEntries hash r) \<le> length (files r) + sum_list (map (\<lambda>f. length (fst f)) (files r))"
proof -
  have "length (concat (map (\<lambda>f. parents (fst f)) fs)) \<le> sum_list (map (\<lambda>f. length (fst f)) fs)" for fs :: "(string \<times> stored) list"
    by (induction fs) (auto simp: add_mono length_parents)
  then have "length (remdups (concat (map (\<lambda>f. parents (fst f)) (files r))))
               \<le> sum_list (map (\<lambda>f. length (fst f)) (files r))"
    using length_remdups_leq le_trans by blast
  then show ?thesis by (simp add: treeEntries_def)
qed







lemma sampleStore_not_truncated: "length (treeEntries sampleHash sampleStore) \<le> tree_limit sampleStore"
  by (rule le_trans [OF length_treeEntries]) (simp add: sampleStore_def)




text \<open>
  A path that is not plain is one string for the filter of the fast path and another for
  the store: for \<open>posts/sub#x\<close> the fast path finds nothing below \<open>posts/sub#x/\<close>, and
  the fallback is given the listing of \<open>posts/sub\<close>.
\<close>

lemma path_with_fragment_is_listed_differently:
  "map rt_path (fst (listFiles GithubAdapter (serve sampleHash) ''posts/sub#x'' (fresh sampleStore)))
     = []
   \<and> map rt_path (fst (listFiles GithubAdapter (serve sampleHash) ''posts/sub#x''
                          (fresh (sampleStore\<lparr>tree_api := False\<rparr>))))
     = [''posts/sub/b.md'']"
proof -
  have "map rt_path (fst (listFiles GithubAdapter (serve sampleHash) ''posts/sub#x'' (fresh sampleStore)))
                = []"
    by (subst fast_paths [OF _ _ sampleStore_not_truncated])
       (simp_all add: sampleStore_def resource_def dirPrefix_def endsWith_def startsWith_def)
  moreover have "map rt_path (fst (listFiles GithubAdapter (serve sampleHash) ''posts/sub#x''
                                     (fresh (sampleStore\<lparr>tree_api := False\<rparr>))))
                = [''posts/sub/b.md'']"
    by (subst fallback_items)
       (simp_all add: sampleStore_def resource_def isDirectory_def listing_def subdirsOf_def
          filesIn_def dirPrefix_def endsWith_def startsWith_def dirEntry_def fileEntry_def)
  ultimately show ?thesis by simp
qed

section \<open>The production URL\<close>

lemma read_quiet:
  assumes "quiet be"
  shows "\<exists>w1. getFileContent ad be p w = (fst (getFileContent ad be p (fresh (remote w))), w1)
           \<and> remote w1 = remote w
           \<and> map fst (traffic w1) = map fst (traffic w) @ [get (Contents p)]"
proof -
  have "snd (be (get (Contents p)) (remote w)) = remote w"
    using assms by (simp add: quiet_def get_def)
  then obtain answer where a: "be (get (Contents p)) (remote w) = (answer, remote w)"
    by (cases "be (get (Contents p)) (remote w)") simp
  have m: "http_method (get (Contents p)) = GET" by (simp add: get_def)
  show ?thesis
    by (cases ad; cases answer)
       (simp_all add: getFileContent_def this_makeRequest_def makeRequest_def makeGiteaRequest_def
          fetch_def fresh_def a dispatchEvent_def Let_def m split: sum.splits)
qed

lemma find_append_either:
  "List.find P (xs @ ys) = (case List.find P xs of None \<Rightarrow> List.find P ys | Some x \<Rightarrow> Some x)"
  by (induction xs) simp_all

lemma tried_append:
  "takeWhile n (xs @ ys) @ take 1 (dropWhile n (xs @ ys)) =
     (if \<forall>x \<in> set xs. n x then xs @ takeWhile n ys @ take 1 (dropWhile n ys)
      else takeWhile n xs @ take 1 (dropWhile n xs))"
  by (induction xs) simp_all

lemma scanFiles_spec:
  assumes q: "quiet be"
    and t: "\<forall>f \<in> set fs. snd f = regexFor (fst f) \<and> fst f \<noteq> ''package.json''"
    and r: "remote w = r"
  shows "\<exists>w1. scanFiles ad be exec fs w =
             (case List.find (\<lambda>p. urlAt exec JSON_parse (\<lambda>p. fst (getFileContent ad be p (fresh r))) p \<noteq> None)
                     (map fst fs) of
                None \<Rightarrow> None
              | Some p \<Rightarrow> map_option stripTrailingSlash
                           (urlAt exec JSON_parse (\<lambda>p. fst (getFileContent ad be p (fresh r))) p), w1)
           \<and> remote w1 = r
           \<and> map fst (traffic w1) = map fst (traffic w)
               @ map (\<lambda>p. get (Contents p))
                   (takeWhile (\<lambda>p. urlAt exec JSON_parse (\<lambda>p. fst (getFileContent ad be p (fresh r))) p = None)
                      (map fst fs)
                    @ take 1 (dropWhile (\<lambda>p. urlAt exec JSON_parse
                                 (\<lambda>p. fst (getFileContent ad be p (fresh r))) p = None) (map fst fs)))"
  using t r
proof (induction fs arbitrary: w)
  case Nil
  then show ?case by simp
next
  case (Cons f0 fs)
  let ?read = "\<lambda>p. fst (getFileContent ad be p (fresh r))"
  obtain w1 where g: "getFileContent ad be (fst f0) w = (?read (fst f0), w1)"
    and r1: "remote w1 = r"
    and t1: "map fst (traffic w1) = map fst (traffic w) @ [get (Contents (fst f0))]"
    using read_quiet [OF q, of ad "fst f0" w] Cons.prems(2) by auto
  have f0: "snd f0 = regexFor (fst f0)" "fst f0 \<noteq> ''package.json''" using Cons.prems(1) by simp_all
  have rest: "\<forall>f \<in> set fs. snd f = regexFor (fst f) \<and> fst f \<noteq> ''package.json''"
    using Cons.prems(1) by simp
  note IH = Cons.IH [OF rest r1]
  show ?case
  proof (cases "urlAt exec JSON_parse ?read (fst f0)")
    case None
    then have "scanFiles ad be exec (f0 # fs) w = scanFiles ad be exec fs w1"
      using g f0
      by (auto simp: urlAt_def siteUrl_def truthy_def split: sum.splits option.splits if_splits)
    then show ?thesis using IH None t1 by auto
  next
    case (Some u)
    then have "scanFiles ad be exec (f0 # fs) w = (Some (stripTrailingSlash u), w1)"
      using g f0
      by (auto simp: urlAt_def siteUrl_def truthy_def split: sum.splits option.splits if_splits)
    then show ?thesis using Some r1 t1 by simp
  qed
qed

lemma filesToScan_regexes:
  "\<forall>f \<in> set filesToScan. snd f = regexFor (fst f) \<and> fst f \<noteq> ''package.json''"
  by (simp add: filesToScan_def regexFor_def endsWith_def)

lemma candidates_filesToScan: "candidates = map fst filesToScan @ [''package.json'']"
  by (simp add: candidates_def filesToScan_def)

lemma homepage_spec:
  "(case JSON_parse content of
      Inl e \<Rightarrow> (None, w2)
    | Inr pkg \<Rightarrow>
        (case homepage_of pkg of
           Inr (Some (JString homepage)) \<Rightarrow>
             if homepage \<noteq> [] \<and> startsWith homepage (js ''http'')
             then (Some (stripTrailingSlash homepage), w2)
             else (None, w2)
         | _ \<Rightarrow> (None, w2)))
   = (map_option stripTrailingSlash (homepageUrl (JSON_parse content)), w2)"
proof -
  have "\<not> startsWith [] (js ''http'')" by (simp add: startsWith_def js_def)
  then show ?thesis
    by (auto simp: homepage_of_def homepageUrl_def
        split: sum.splits json_value.splits option.splits)
qed

lemma find_Some_member: "List.find P xs = Some x \<Longrightarrow> P x \<and> x \<in> set xs"
  by (induction xs) (auto split: if_splits)

text \<open>
  Claim C8. Let the backend be quiet, so that every path has one text, or one failure,
  throughout the run. Then \<open>findProductionUrl\<close> returns what the description in the
  spec gives: with the paths taken in the fixed order of priority, the URL found at the
  first path that yields one, its trailing slash stripped, where a path whose read fails
  yields none; and nothing (the function has no failing result) when no path yields a
  URL. The requests sent are the reads of the paths in that order, up to and including
  the first that yields a URL.
\<close>

theorem production_url_is_first_found:
  assumes "quiet be"
  shows "fst (findProductionUrl ad be exec JSON_parse (fresh r))
           = spec_findProductionUrl exec JSON_parse (\<lambda>p. fst (getFileContent ad be p (fresh r)))
         \<and> map fst (traffic (snd (findProductionUrl ad be exec JSON_parse (fresh r))))
           = map (\<lambda>p. get (Contents p))
               (pathsRead exec JSON_parse (\<lambda>p. fst (getFileContent ad be p (fresh r))))"
proof -
  let ?read = "\<lambda>p. fst (getFileContent ad be p (fresh r))"
  let ?url = "urlAt exec JSON_parse ?read"
  let ?none = "\<lambda>p. ?url p = None"
  let ?ps = "map fst filesToScan"
  have r0: "remote (fresh r) = r" and t0: "traffic (fresh r) = []" by (simp_all add: fresh_def)
  obtain w1 where s: "scanFiles ad be exec filesToScan (fresh r) =
        (case List.find (\<lambda>p. ?url p \<noteq> None) ?ps of
           None \<Rightarrow> None | Some p \<Rightarrow> map_option stripTrailingSlash (?url p), w1)"
    and r1: "remote w1 = r"
    and t1: "map fst (traffic w1) =
        map (\<lambda>p. get (Contents p)) (takeWhile ?none ?ps @ take 1 (dropWhile ?none ?ps))"
    using scanFiles_spec [OF assms filesToScan_regexes r0, of ad exec JSON_parse] t0 by auto
  show ?thesis
  proof (cases "List.find (\<lambda>p. ?url p \<noteq> None) ?ps")
    case None
    then have all: "\<forall>p \<in> set ?ps. ?none p" by (auto simp: find_None_iff)
    obtain w2 where g: "getFileContent ad be ''package.json'' w1 = (?read ''package.json'', w2)"
      and t2: "map fst (traffic w2) = map fst (traffic w1) @ [get (Contents ''package.json'')]"
      using read_quiet [OF assms, of ad "''package.json''" w1] r1 by auto
    have f: "findProductionUrl ad be exec JSON_parse (fresh r)
        = (map_option stripTrailingSlash (?url ''package.json''), w2)"
      unfolding findProductionUrl_def s None using g
      by (cases "?read ''package.json''") (simp_all add: homepage_spec urlAt_def)
    have "spec_findProductionUrl exec JSON_parse ?read
        = map_option stripTrailingSlash (?url ''package.json'')"
      unfolding spec_findProductionUrl_def candidates_filesToScan find_append_either None
      by (cases "?url ''package.json''") simp_all
    moreover have "pathsRead exec JSON_parse ?read = ?ps @ [''package.json'']"
      unfolding pathsRead_def candidates_filesToScan tried_append using all by simp
    moreover have tw: "takeWhile ?none ?ps = ?ps" "dropWhile ?none ?ps = []"
      using all by (simp_all only: takeWhile_eq_all_conv dropWhile_eq_Nil_conv)
    have "map fst (traffic w1) = map (\<lambda>p. get (Contents p)) (?ps @ take 1 [])"
      by (simp only: t1 tw)
    then have "map fst (traffic w1) = map (\<lambda>p. get (Contents p)) ?ps" by simp
    ultimately show ?thesis using f t2 by simp
  next
    case (Some p)
    have m: "?url p \<noteq> None \<and> p \<in> set ?ps"
      using find_Some_member [OF Some] by simp
    then have p: "?url p \<noteq> None" by simp
    have ex: "\<not> (\<forall>p \<in> set ?ps. ?none p)"
    proof
      assume "\<forall>p \<in> set ?ps. ?none p"
      then have "?url p = None" using m by blast
      then show False using p by simp
    qed
    from p obtain u where u: "?url p = Some u" by (cases "?url p") simp_all
    have f: "findProductionUrl ad be exec JSON_parse (fresh r) = (Some (stripTrailingSlash u), w1)"
      unfolding findProductionUrl_def s Some by (simp add: u)
    have "spec_findProductionUrl exec JSON_parse ?read = Some (stripTrailingSlash u)"
      unfolding spec_findProductionUrl_def candidates_filesToScan find_append_either Some
      by (simp add: u)
    moreover have "pathsRead exec JSON_parse ?read = takeWhile ?none ?ps @ take 1 (dropWhile ?none ?ps)"
      by (simp only: pathsRead_def candidates_filesToScan tried_append ex if_False)
    ultimately show ?thesis using f t1 by simp
  qed
qed

lemma quiet_static: "quiet (static srv)"
  by (simp add: quiet_def static_def)

lemma sample_absent:
  "p \<noteq> ''src/config.yaml'' \<Longrightarrow>
   fst (getFileContent GithubAdapter (static sampleConfig) p (fresh ())) 
     = Inl (Error ''GitHub API Error: 404 Not Found - Not Found'')"
  by (simp add: getFileContent_def this_makeRequest_def makeRequest_def fetch_def static_def
      sampleConfig_def get_def notFound_def respond_def ok_def fresh_def Let_def orElse_def
      message_field_def show_nat.simps digit_def)

lemma sample_yaml:
  "fst (getFileContent GithubAdapter (static sampleConfig) ''src/config.yaml'' (fresh ()))
     = Inr (js ''site: https://a.io/'')"
  by (simp add: getFileContent_def this_makeRequest_def makeRequest_def fetch_def static_def
      sampleConfig_def get_def respond_def ok_def fresh_def Let_def content_field_def
      encoding_field_def decodeContent_def js_def atob_def isAsciiWhitespace_def removePadding_def
      sextetValue_def TextDecoder_decode_def stripBOM_def utf16_def)

theorem production_url_is_first_found_witness:
  "fst (findProductionUrl GithubAdapter (static sampleConfig) sampleExec (\<lambda>text. Inr JNull) (fresh ()))
     = Some (js ''https://a.io'')
   \<and> map fst (traffic (snd (findProductionUrl GithubAdapter (static sampleConfig) sampleExec
                               (\<lambda>text. Inr JNull) (fresh ()))))
     = [get (Contents ''astro.config.mjs''), get (Contents ''astro.config.ts''),
        get (Contents ''astro.config.js''), get (Contents ''src/config.yaml'')]"
proof -
  let ?read = "\<lambda>p. fst (getFileContent GithubAdapter (static sampleConfig) p (fresh ()))"
  let ?url = "urlAt sampleExec (\<lambda>text. Inr JNull) ?read"
  have a: "?url ''astro.config.mjs'' = None" "?url ''astro.config.ts'' = None"
    "?url ''astro.config.js'' = None"
    by (simp_all add: urlAt_def sample_absent)
  have y: "?url ''src/config.yaml'' = Some (js ''https://a.io/'')"
    by (simp add: urlAt_def sample_yaml sampleExec_def regexFor_def endsWith_def siteUrl_def js_def)
  have s: "stripTrailingSlash (js ''https://a.io/'') = js ''https://a.io''"
    by (simp add: stripTrailingSlash_def js_def)
  have "spec_findProductionUrl sampleExec (\<lambda>text. Inr JNull) ?read = Some (js ''https://a.io'')"
    by (simp add: spec_findProductionUrl_def candidates_def a y s)
  moreover have "pathsRead sampleExec (\<lambda>text. Inr JNull) ?read
      = [''astro.config.mjs'', ''astro.config.ts'', ''astro.config.js'', ''src/config.yaml'']"
    by (simp add: pathsRead_def candidates_def a y)
  ultimately show ?thesis
    using production_url_is_first_found [OF quiet_static, of GithubAdapter sampleConfig sampleExec
        "\<lambda>text. Inr JNull" "()"]
    by simp
qed

section \<open>The round trip of the transport encoding\<close>

subsection \<open>UTF-8\<close>

lemma lead_mod: "a < k \<Longrightarrow> (j * k + a) mod k = (a :: nat)"
  by simp

lemma continuation_mod: "m < 64 \<Longrightarrow> (128 + m) mod 64 = (m :: nat)"
  using lead_mod [of m 64 2] by simp

lemma decode_last:
  "m < 64 \<Longrightarrow>
   utf8_decode cp (Suc 0) 0x80 0xBF ((128 + m) # bs) = (cp * 64 + m) # utf8_decode 0 0 0x80 0xBF bs"
  by (simp add: continuation_mod)

lemma decode_mid:
  "m < 64 \<Longrightarrow> lo \<le> 128 + m \<Longrightarrow> 128 + m \<le> hi \<Longrightarrow>
   utf8_decode cp (Suc (Suc n)) lo hi ((128 + m) # bs) = utf8_decode (cp * 64 + m) (Suc n) 0x80 0xBF bs"
  by (simp add: continuation_mod)

lemma decode_lead2:
  "2 \<le> a \<Longrightarrow> a < 32 \<Longrightarrow>
   utf8_decode 0 0 0x80 0xBF ((192 + a) # bs) = utf8_decode a (Suc 0) 0x80 0xBF bs"
proof -
  assume a: "2 \<le> a" "a < 32"
  then have "(192 + a) mod 32 = a" using lead_mod [of a 32 6] by simp
  with a show ?thesis by simp
qed

lemma decode_lead3:
  "a < 16 \<Longrightarrow>
   utf8_decode 0 0 0x80 0xBF ((224 + a) # bs)
     = utf8_decode a (Suc (Suc 0)) (if a = 0 then 0xA0 else 0x80) (if a = 13 then 0x9F else 0xBF) bs"
proof -
  assume a: "a < 16"
  then have "(224 + a) mod 16 = a" using lead_mod [of a 16 14] by simp
  with a show ?thesis by (simp add: numeral_2_eq_2)
qed

lemma decode_lead4:
  "a < 5 \<Longrightarrow>
   utf8_decode 0 0 0x80 0xBF ((240 + a) # bs)
     = utf8_decode a (Suc (Suc (Suc 0))) (if a = 0 then 0x90 else 0x80) (if a = 4 then 0x8F else 0xBF) bs"
proof -
  assume a: "a < 5"
  then have "(240 + a) mod 8 = a" using lead_mod [of a 8 30] by simp
  with a show ?thesis by (simp add: numeral_3_eq_3)
qed

lemma div_4096: "c div 4096 = c div 64 div (64 :: nat)"
  by (simp add: div_mult2_eq [symmetric])

lemma div_262144: "c div 262144 = c div 64 div 64 div (64 :: nat)"
  by (simp add: div_mult2_eq [symmetric])

lemma utf8_decode_utf8:
  assumes "scalar c"
  shows "utf8_decode 0 0 0x80 0xBF (utf8 c @ bs) = c # utf8_decode 0 0 0x80 0xBF bs"
proof -
  from assms have top: "c < 0x110000" and ns: "c < 0xD800 \<or> 0xDFFF < c"
    by (auto simp: scalar_def isSurrogate_def)
  let ?q = "c div 64" and ?d = "c mod 64"
  have d: "?d < 64" by simp
  have cq: "?q * 64 + ?d = c" by simp
  consider "c < 0x80" | "0x80 \<le> c" "c < 0x800" | "0x800 \<le> c" "c < 0x10000" | "0x10000 \<le> c"
    by linarith
  then show ?thesis
  proof cases
    case 1
    then show ?thesis by (simp add: utf8_def)
  next
    case 2
    then have a: "2 \<le> ?q" "?q < 32" by simp_all
    from 2 show ?thesis
      by (simp add: utf8_def decode_lead2 [OF a] decode_last [OF d] del: utf8_decode.simps)
  next
    case 3
    let ?a = "?q div 64" and ?b = "?q mod 64"
    have q: "32 \<le> ?q" "?q < 1024" using 3 by simp_all
    have qs: "?q < 864 \<or> 896 \<le> ?q" using ns by auto
    have a: "?a < 16" using q by simp
    have b: "?b < 64" by simp
    have lo: "(if ?a = 0 then 0xA0 else 0x80) \<le> 128 + ?b"
      using q by (auto simp: div_eq_0_iff)
    have hi: "128 + ?b \<le> (if ?a = 13 then 0x9F else 0xBF)"
    proof (cases "?a = 13")
      case True
      with div_mult_mod_eq [of ?q 64] have eq: "?q = 832 + ?b" by simp
      with b qs have "?b < 32" by linarith
      with True show ?thesis by simp
    next
      case False
      with b show ?thesis by simp
    qed
    have v: "(?a * 64 + ?b) * 64 + ?d = c" by simp
    have u: "utf8 c = [224 + ?a, 128 + ?b, 128 + ?d]"
      using 3 by (simp add: utf8_def div_4096)
    show ?thesis
      unfolding u
      by (simp only: append_Cons append_Nil decode_lead3 [OF a] decode_mid [OF b lo hi]
            decode_last [OF d] v)
  next
    case 4
    let ?p = "?q div 64" and ?e = "?q mod 64"
    let ?a = "?p div 64" and ?b = "?p mod 64"
    have p: "16 \<le> ?p" "?p < 272"
      using 4 top by (simp_all add: div_4096 [symmetric])
    have a: "?a < 5" using p by simp
    have b: "?b < 64" and e: "?e < 64" by simp_all
    have lo: "(if ?a = 0 then 0x90 else 0x80) \<le> 128 + ?b"
      using p by (auto simp: div_eq_0_iff)
    have hi: "128 + ?b \<le> (if ?a = 4 then 0x8F else 0xBF)"
    proof (cases "?a = 4")
      case True
      with div_mult_mod_eq [of ?p 64] have eq: "?p = 256 + ?b" by simp
      with p have "?b < 16" by linarith
      with True show ?thesis by simp
    next
      case False
      with b show ?thesis by simp
    qed
    have e': "(0x80::nat) \<le> 128 + ?e" "128 + ?e \<le> (0xBF::nat)" by simp_all
    have v: "((?a * 64 + ?b) * 64 + ?e) * 64 + ?d = c" by simp
    have u: "utf8 c = [240 + ?a, 128 + ?b, 128 + ?e, 128 + ?d]"
      using 4 by (simp add: utf8_def div_4096 div_262144)
    show ?thesis
      unfolding u
      by (simp only: append_Cons append_Nil decode_lead4 [OF a] decode_mid [OF b lo hi]
            decode_mid [OF e e'] decode_last [OF d] v)
  qed
qed

lemma utf8_decode_concat:
  "\<forall>c \<in> set cs. scalar c \<Longrightarrow> utf8_decode 0 0 0x80 0xBF (concat (map utf8 cs)) = cs"
  by (induction cs) (simp_all add: utf8_decode_utf8 del: utf8_decode.simps(2))

subsection \<open>UTF-16\<close>

lemma pair_value:
  assumes "isHighSurrogate u" "isLowSurrogate v"
  shows "scalar (0x10000 + (u - 0xD800) * 0x400 + (v - 0xDC00))"
    and "utf16 (0x10000 + (u - 0xD800) * 0x400 + (v - 0xDC00)) = [u, v]"
proof -
  obtain x y where x: "u = 0xD800 + x" "x < 0x400" and y: "v = 0xDC00 + y" "y < 0x400"
  proof
    show "u = 0xD800 + (u - 0xD800)" "u - 0xD800 < 0x400" "v = 0xDC00 + (v - 0xDC00)" "v - 0xDC00 < 0x400"
      using assms by (auto simp: isHighSurrogate_def isLowSurrogate_def)
  qed
  have "x * 0x400 \<le> 0x3FF * 0x400" using x(2) by simp
  then show "scalar (0x10000 + (u - 0xD800) * 0x400 + (v - 0xDC00))"
    using y(2) by (simp add: x(1) y(1) scalar_def isSurrogate_def)
  show "utf16 (0x10000 + (u - 0xD800) * 0x400 + (v - 0xDC00)) = [u, v]"
    using x(2) y(2) by (simp add: x(1) y(1) utf16_def)
qed

lemma single_value:
  assumes "\<not> isSurrogate u" "u < 0x10000"
  shows "scalar u" and "utf16 u = [u]"
  using assms by (simp_all add: scalar_def utf16_def)

lemma not_high_if_not_surrogate: "\<not> isSurrogate u \<Longrightarrow> \<not> isHighSurrogate u"
  by (auto simp: isSurrogate_def isHighSurrogate_def)

lemma codePoints_roundtrip:
  "wellFormed us \<Longrightarrow> \<forall>u \<in> set us. u < 0x10000 \<Longrightarrow>
   (\<forall>c \<in> set (codePoints us). scalar c) \<and> concat (map utf16 (codePoints us)) = us"
proof (induction us rule: codePoints.induct)
  case 1
  then show ?case by simp
next
  case (2 u)
  then show ?case by (simp add: single_value)
next
  case (3 u v us)
  show ?case
  proof (cases "isHighSurrogate u")
    case True
    with "3.prems" have low: "isLowSurrogate v" and wf: "wellFormed us" by simp_all
    from "3.IH"(1) [OF conjI [OF True low] wf] "3.prems"(2)
    have "(\<forall>c \<in> set (codePoints us). scalar c) \<and> concat (map utf16 (codePoints us)) = us"
      by simp
    with True low show ?thesis by (simp add: pair_value)
  next
    case False
    with "3.prems" have ns: "\<not> isSurrogate u" and wf: "wellFormed (v # us)" by simp_all
    from False have "\<not> (isHighSurrogate u \<and> isLowSurrogate v)" by simp
    from "3.IH"(2) [OF this wf] "3.prems"(2)
    have "(\<forall>c \<in> set (codePoints (v # us)). scalar c)
          \<and> concat (map utf16 (codePoints (v # us))) = v # us"
      by simp
    with False ns "3.prems"(2) show ?thesis by (simp add: single_value)
  qed
qed

lemma codePoints_nonempty: "us \<noteq> [] \<Longrightarrow> codePoints us \<noteq> []"
  by (induction us rule: codePoints.induct) auto

lemma codePoints_head:
  "wellFormed us \<Longrightarrow> us \<noteq> [] \<Longrightarrow> (hd (codePoints us) = 0xFEFF) = (hd us = 0xFEFF)"
proof (induction us rule: codePoints.induct)
  case 1
  then show ?case by simp
next
  case (2 u)
  then show ?case by simp
next
  case (3 u v us)
  show ?case
  proof (cases "isHighSurrogate u \<and> isLowSurrogate v")
    case True
    then have "u \<noteq> 0xFEFF" by (auto simp: isHighSurrogate_def)
    with True show ?thesis by simp
  next
    case False
    then show ?thesis by (auto simp: isSurrogate_def)
  qed
qed

subsection \<open>Base64\<close>

lemma byte_div_16: "b < 256 \<Longrightarrow> b div 16 < (16 :: nat)"
  by (rule less_mult_imp_div_less) simp

lemma byte_div_64: "c < 256 \<Longrightarrow> c div 64 < (4 :: nat)"
  by (rule less_mult_imp_div_less) simp

lemma byte_div_4: "a < 256 \<Longrightarrow> a div 4 < (64 :: nat)"
  by (rule less_mult_imp_div_less) simp

lemma encodeGroups_split:
  "encodeGroups bs = map sextet (sextets bs) @ replicate (padding bs) 0x3D"
  by (induction bs rule: encodeGroups.induct) (simp_all add: numeral_2_eq_2)

lemma sextets_small: "\<forall>b \<in> set bs. b < 256 \<Longrightarrow> \<forall>v \<in> set (sextets bs). v < 64"
proof (induction bs rule: sextets.induct)
  case 1
  then show ?case by simp
next
  case (2 a)
  have "a mod 4 < 4" by simp
  then have "a mod 4 * 16 < 64" by linarith
  with 2 show ?case by (simp add: byte_div_4)
next
  case (3 a b)
  have "a mod 4 < 4" "b mod 16 < 16" by simp_all
  moreover from 3 have "b div 16 < 16" by (simp add: byte_div_16)
  ultimately have "a mod 4 * 16 + b div 16 < 64" "b mod 16 * 4 < 64" by linarith+
  with 3 show ?case by (simp add: byte_div_4)
next
  case (4 a b c r)
  have "a mod 4 < 4" "b mod 16 < 16" by simp_all
  moreover from 4 have "b div 16 < 16" "c div 64 < 4" by (simp_all add: byte_div_16 byte_div_64)
  ultimately have "a mod 4 * 16 + b div 16 < 64" "b mod 16 * 4 + c div 64 < 64" by linarith+
  with 4 show ?case by (simp add: byte_div_4)
qed

lemma decodeGroups_sextets: "\<forall>b \<in> set bs. b < 256 \<Longrightarrow> decodeGroups (sextets bs) = bs"
proof (induction bs rule: sextets.induct)
  case 1
  then show ?case by simp
next
  case (2 a)
  have "a mod 4 * 16 div 16 = a mod 4" by simp
  then show ?case by simp
next
  case (3 a b)
  from 3 have bd: "b div 16 < 16" by (simp add: byte_div_16)
  have 1: "(a mod 4 * 16 + b div 16) div 16 = a mod 4" using bd by simp
  have 2: "(a mod 4 * 16 + b div 16) mod 16 = b div 16" using bd by simp
  show ?case using bd by simp
next
  case (4 a b c r)
  from 4 have bd: "b div 16 < 16" and cd: "c div 64 < 4" by (simp_all add: byte_div_16 byte_div_64)
  have 1: "(a mod 4 * 16 + b div 16) div 16 = a mod 4" using bd by simp
  have 2: "(a mod 4 * 16 + b div 16) mod 16 = b div 16" using bd by simp
  have 3: "(b mod 16 * 4 + c div 64) div 4 = b mod 16" using cd by simp
  have 5: "(b mod 16 * 4 + c div 64) mod 4 = c div 64" using cd by simp
  from 4 show ?case using bd cd by simp
qed

lemma sextet_value: "v < 64 \<Longrightarrow> sextetValue (sextet v) = Some v"
  by (auto simp: sextet_def sextetValue_def)

lemma sextet_not_pad: "v < 64 \<Longrightarrow> sextet v \<noteq> 0x3D"
  by (auto simp: sextet_def)

lemma sextet_not_whitespace: "v < 64 \<Longrightarrow> \<not> isAsciiWhitespace (sextet v)"
  by (auto simp: sextet_def isAsciiWhitespace_def)

lemma sextet_ascii: "v < 64 \<Longrightarrow> sextet v < 128"
  by (auto simp: sextet_def)

lemma sextetValues_map: "\<forall>v \<in> set vs. v < 64 \<Longrightarrow> sextetValues (map sextet vs) = Some vs"
  by (induction vs) (simp_all add: sextet_value)

lemma length_sextets: "length (sextets bs) mod 4 \<noteq> 1"
  by (induction bs rule: sextets.induct) simp_all

lemma length_encodeGroups: "length (encodeGroups bs) mod 4 = 0"
  by (induction bs rule: encodeGroups.induct) simp_all

lemma padding_le: "padding bs \<le> 2 \<and> (sextets bs = [] \<longrightarrow> padding bs = 0)"
  by (induction bs rule: padding.induct) simp_all

lemma removePadding_padded:
  assumes "length (xs @ replicate k 0x3D) mod 4 = 0" and "k \<le> 2"
    and "xs \<noteq> [] \<Longrightarrow> last xs \<noteq> 0x3D" and "xs = [] \<Longrightarrow> k = 0"
  shows "removePadding (xs @ replicate k 0x3D) = xs"
proof -
  consider "k = 0" | "k = 1" | "k = 2" using assms(2) by linarith
  then show ?thesis
  proof cases
    case 1
    with assms show ?thesis by (cases "xs = []") (simp_all add: removePadding_def)
  next
    case 2
    with assms(4) have ne: "xs \<noteq> []" by auto
    with 2 assms(1,3) show ?thesis by (simp add: removePadding_def)
  next
    case 3
    with assms(4) have ne: "xs \<noteq> []" by auto
    have "replicate k (0x3D :: nat) = [0x3D, 0x3D]" using 3 by (simp add: numeral_2_eq_2)
    with assms(1) show ?thesis by (simp add: removePadding_def butlast_append)
  qed
qed

lemma removePadding_encodeGroups:
  assumes "\<forall>b \<in> set bs. b < 256"
  shows "removePadding (encodeGroups bs) = map sextet (sextets bs)"
proof -
  have small: "\<forall>v \<in> set (sextets bs). v < 64" by (rule sextets_small [OF assms])
  have "last (map sextet (sextets bs)) \<noteq> 0x3D" if "map sextet (sextets bs) \<noteq> []"
  proof -
    from that have "last (sextets bs) \<in> set (sextets bs)" by simp
    with small have "last (sextets bs) < 64" by blast
    with that show ?thesis by (simp add: last_map sextet_not_pad)
  qed
  moreover have "length (map sextet (sextets bs) @ replicate (padding bs) 0x3D) mod 4 = 0"
    using length_encodeGroups [of bs] by (simp add: encodeGroups_split)
  ultimately show ?thesis
    unfolding encodeGroups_split
    using padding_le [of bs] by (intro removePadding_padded) auto
qed

lemma no_whitespace_encodeGroups:
  assumes "\<forall>b \<in> set bs. b < 256"
  shows "filter (\<lambda>u. \<not> isAsciiWhitespace u) (encodeGroups bs) = encodeGroups bs"
proof -
  have "\<forall>v \<in> set (sextets bs). v < 64" by (rule sextets_small [OF assms])
  then have "\<forall>u \<in> set (map sextet (sextets bs)). \<not> isAsciiWhitespace u"
    by (simp add: sextet_not_whitespace)
  moreover have "\<forall>u \<in> set (replicate (padding bs) (0x3D :: nat)). \<not> isAsciiWhitespace u"
    by (simp add: isAsciiWhitespace_def)
  ultimately show ?thesis
    unfolding encodeGroups_split by (simp add: filter_id_conv)
qed

lemma encodeGroups_bounded:
  assumes "\<forall>b \<in> set bs. b < 256"
  shows "\<forall>u \<in> set (encodeGroups bs). u < 128"
proof -
  have "\<forall>v \<in> set (sextets bs). v < 64" by (rule sextets_small [OF assms])
  then show ?thesis by (auto simp: encodeGroups_split sextet_ascii)
qed

lemma encodeGroups_nonempty: "bs \<noteq> [] \<Longrightarrow> encodeGroups bs \<noteq> []"
  by (induction bs rule: encodeGroups.induct) simp_all

subsection \<open>Bytes and code units\<close>

lemma unat_unit_of_nat: "n < 65536 \<Longrightarrow> unat (of_nat n :: 16 word) = n"
  by (simp add: unat_of_nat)

lemma unat_byte_of_nat: "n < 256 \<Longrightarrow> unat (of_nat n :: 8 word) = n"
  by (simp add: unat_of_nat)

lemma map_unat_units: "\<forall>n \<in> set ns. n < 65536 \<Longrightarrow> map unat (map of_nat ns :: 16 word list) = ns"
  by (induction ns) (simp_all add: unat_unit_of_nat)

lemma map_unat_bytes: "\<forall>n \<in> set ns. n < 256 \<Longrightarrow> map unat (map of_nat ns :: 8 word list) = ns"
  by (induction ns) (simp_all add: unat_byte_of_nat)

lemma unat_unit: "unat (u :: 16 word) < 65536"
  using unsigned_less [of u, where ?'a = nat] by simp

lemma utf8_bytes: "c < 0x110000 \<Longrightarrow> \<forall>b \<in> set (utf8 c). b < 256"
proof -
  assume c: "c < 0x110000"
  have m: "c mod 64 < 64" "c div 64 mod 64 < 64" "c div 4096 mod 64 < 64" by simp_all
  have 1: "c div 64 < 32" if "c < 0x800" by (rule less_mult_imp_div_less) (use that in simp)
  have 2: "c div 4096 < 16" if "c < 0x10000" by (rule less_mult_imp_div_less) (use that in simp)
  have 3: "c div 262144 < 5" by (rule less_mult_imp_div_less) (use c in simp)
  show ?thesis
    using m 1 2 3 by (auto simp: utf8_def)
qed

lemma encoded_bytes:
  assumes "\<forall>c \<in> set cs. scalar c"
  shows "\<forall>b \<in> set (concat (map utf8 cs)). b < 256"
  using assms utf8_bytes by (auto simp: scalar_def)

lemma utf8_nonempty: "utf8 c \<noteq> []"
  by (simp add: utf8_def)

lemma atob_encodeGroups:
  assumes "\<forall>b \<in> set bs. b < 256"
  shows "atob (map of_nat (encodeGroups bs)) = Inr (map of_nat bs)"
proof -
  have "\<forall>u \<in> set (encodeGroups bs). u < 65536"
    using encodeGroups_bounded [OF assms] by auto
  then have u: "map unat (map of_nat (encodeGroups bs) :: 16 word list) = encodeGroups bs"
    by (rule map_unat_units)
  have d: "removePadding (filter (\<lambda>u. \<not> isAsciiWhitespace u) (encodeGroups bs)) = map sextet (sextets bs)"
    by (simp only: no_whitespace_encodeGroups [OF assms] removePadding_encodeGroups [OF assms])
  have v: "sextetValues (map sextet (sextets bs)) = Some (sextets bs)"
    by (rule sextetValues_map [OF sextets_small [OF assms]])
  have l: "length (sextets bs) mod 4 \<noteq> Suc 0" using length_sextets [of bs] by simp
  show ?thesis
    unfolding atob_def u d
    by (simp add: Let_def l v decodeGroups_sextets [OF assms])
qed

lemma byte_of_unit: "(ucast (ucast (b :: 8 word) :: 16 word) :: 8 word) = b"
  by (rule bit_word_eqI) (simp add: bit_simps)

lemma decode_of_encode:
  assumes "str \<noteq> []"
  shows "\<exists>c. base64Encode str = Inr c \<and>
     decodeContent (Some c) (Some ''base64'') failure = Inr (TextDecoder_decode (TextEncoder_encode str))"
proof -
  let ?data = "TextEncoder_encode str"
  let ?c = "map of_nat (encodeGroups (map unat ?data)) :: jsstring"
  have bytes: "\<forall>b \<in> set (map unat ?data). b < 256" using unat_byte by auto
  have "codePoints (map unat str) \<noteq> []" using assms by (simp add: codePoints_nonempty)
  then have "concat (map utf8 (codePoints (map unat str))) \<noteq> []"
    by (cases "codePoints (map unat str)") (simp_all add: utf8_nonempty)
  then have "?data \<noteq> []" by (simp add: TextEncoder_encode_def)
  then have "encodeGroups (map unat ?data) \<noteq> []" by (simp add: encodeGroups_nonempty)
  then have ne: "?c \<noteq> []" by simp
  have a: "atob ?c = Inr (map of_nat (map unat ?data))" by (rule atob_encodeGroups [OF bytes])
  have b: "map (\<lambda>u. of_nat (unat u) :: 8 word) (map of_nat (map unat ?data) :: 16 word list) = ?data"
    by (simp add: comp_def byte_of_unit map_idI)
  have "decodeContent (Some ?c) (Some ''base64'') failure = Inr (TextDecoder_decode ?data)"
    unfolding decodeContent_def using ne by (simp only: a b Let_def option.case sum.case) simp
  then show ?thesis using base64Encode_total [of str] by blast
qed

subsection \<open>Encoding, then decoding\<close>

lemma codePoints_BOM:
  "wellFormed (0xFEFF # us) \<Longrightarrow> codePoints (0xFEFF # us) = 0xFEFF # codePoints us \<and> wellFormed us"
  by (cases us) (simp_all add: isSurrogate_def isHighSurrogate_def)

lemma strip_roundtrip:
  assumes "wellFormed us" and "\<forall>u \<in> set us. u < 0x10000"
  shows "concat (map utf16 (stripBOM (codePoints us))) = (if us \<noteq> [] \<and> hd us = 0xFEFF then tl us else us)"
proof (cases "us \<noteq> [] \<and> hd us = 0xFEFF")
  case True
  then obtain rest where us: "us = 0xFEFF # rest" by (cases us) auto
  have cp: "codePoints (0xFEFF # rest) = 0xFEFF # codePoints rest" and wf: "wellFormed rest"
    using codePoints_BOM [of rest] assms(1) by (simp_all add: us)
  have "concat (map utf16 (codePoints rest)) = rest"
    using codePoints_roundtrip [OF wf] assms(2) by (simp add: us)
  then show ?thesis by (simp add: cp stripBOM_def us)
next
  case False
  have rt: "concat (map utf16 (codePoints us)) = us"
    using codePoints_roundtrip [OF assms] by simp
  show ?thesis
  proof (cases us)
    case Nil
    then show ?thesis by (simp add: stripBOM_def)
  next
    case (Cons u rest)
    then have ne: "us \<noteq> []" by simp
    then have "hd (codePoints us) \<noteq> 0xFEFF"
      using False codePoints_head [OF assms(1) ne] by simp
    moreover obtain c cs where "codePoints us = c # cs"
      using codePoints_nonempty [OF ne] by (cases "codePoints us") auto
    ultimately have "stripBOM (codePoints us) = codePoints us" by (simp add: stripBOM_def)
    then show ?thesis using rt False by auto
  qed
qed

lemma unit_is_BOM: "(unat (u :: 16 word) = 0xFEFF) = (u = 0xFEFF)"
proof
  assume "unat u = 0xFEFF"
  then have "unat u = unat (0xFEFF :: 16 word)" by simp
  then show "u = 0xFEFF" by (rule word_unat_eq_iff [THEN iffD2])
next
  assume "u = 0xFEFF"
  then show "unat u = 0xFEFF" by simp
qed

lemma units_of_units: "map of_nat (map unat (s :: jsstring)) = s"
  by (induction s) simp_all

lemma decode_encode:
  assumes "wellFormed (map unat str)"
  shows "TextDecoder_decode (TextEncoder_encode str) = (if str \<noteq> [] \<and> hd str = 0xFEFF then tl str else str)"
proof -
  let ?us = "map unat str"
  let ?cps = "codePoints ?us"
  have small: "\<forall>u \<in> set ?us. u < 0x10000" using unat_unit by auto
  have sc: "\<forall>c \<in> set ?cps. scalar c" using codePoints_roundtrip [OF assms small] by simp
  have "map unat (TextEncoder_encode str) = concat (map utf8 ?cps)"
    unfolding TextEncoder_encode_def by (rule map_unat_bytes [OF encoded_bytes [OF sc]])
  then have "utf8_decode 0 0 0x80 0xBF (map unat (TextEncoder_encode str)) = ?cps"
    by (simp only: utf8_decode_concat [OF sc])
  then have d: "TextDecoder_decode (TextEncoder_encode str) =
      map of_nat (if ?us \<noteq> [] \<and> hd ?us = 0xFEFF then tl ?us else ?us)"
    unfolding TextDecoder_decode_def by (simp only: strip_roundtrip [OF assms small])
  show ?thesis
  proof (cases str)
    case Nil
    then show ?thesis using d by simp
  next
    case (Cons u rest)
    have "map of_nat (map unat rest) = rest" "map of_nat (map unat str) = str"
      by (rule units_of_units)+
    then show ?thesis using d by (simp add: Cons unit_is_BOM)
  qed
qed

text \<open>
  Claim C9, as amended. Let \<open>str\<close> be a non-empty well-formed string. Then
  \<open>base64Encode\<close> succeeds on it, and the decoding of \<open>getFileContent\<close>, applied to
  its result as the \<open>content\<close> field of a response whose \<open>encoding\<close> is \<open>base64\<close>,
  returns \<open>str\<close> without a byte order mark U+FEFF at its start: \<open>str\<close> itself when it
  does not start with one.
\<close>

theorem decoding_inverts_base64Encode:
  assumes "str \<noteq> []" and "wellFormed (map unat str)"
  shows "\<exists>c. base64Encode str = Inr c \<and>
     decodeContent (Some c) (Some ''base64'') failure = Inr (if hd str = 0xFEFF then tl str else str)"
  using decode_of_encode [OF assms(1), of failure] decode_encode [OF assms(2)] assms(1) by simp

theorem decoding_inverts_base64Encode_witness:
  "\<exists>c. base64Encode (js ''caf'' @ [0xE9, 0xD83D, 0xDE00]) = Inr c \<and>
     decodeContent (Some c) (Some ''base64'') ''Could not decode file content.''
       = Inr (js ''caf'' @ [0xE9, 0xD83D, 0xDE00])"
  using decoding_inverts_base64Encode [of "js ''caf'' @ [0xE9, 0xD83D, 0xDE00]" "''Could not decode file content.''"]
  by (simp add: js_def isSurrogate_def isHighSurrogate_def isLowSurrogate_def)

text \<open>
  The string U+FEFF \<open>A\<close> is encoded as \<open>77u/QQ==\<close>, which is decoded to \<open>A\<close>: the decoder
  \<open>new TextDecoder('utf-8')\<close> drops a leading byte order mark.
\<close>

theorem decoding_inverts_base64Encode_counterexample:
  "base64Encode [0xFEFF, 0x41] = Inr (js ''77u/QQ=='') \<and>
   decodeContent (Some (js ''77u/QQ=='')) (Some ''base64'') ''Could not decode file content.'' = Inr [0x41]"
  by (simp add: base64Encode_def TextEncoder_encode_def utf8_def isSurrogate_def isHighSurrogate_def
      btoa_def sextet_def js_def decodeContent_def atob_def isAsciiWhitespace_def removePadding_def
      sextetValue_def TextDecoder_decode_def stripBOM_def utf16_def)

text \<open>
  Outside the hypotheses: the empty string is encoded as the empty text, which the guard
  \<open>fileData.content &&\<close> of \<open>getFileContent\<close> refuses; and an unpaired surrogate is
  encoded as U+FFFD.
\<close>

lemma empty_content_is_refused:
  "base64Encode [] = Inr [] \<and> decodeContent (Some []) (Some ''base64'') failure = Inl (Error failure)"
  by (simp add: base64Encode_def TextEncoder_encode_def btoa_def decodeContent_def)

lemma lone_surrogate_is_replaced:
  "TextDecoder_decode (TextEncoder_encode [0xD800]) = [0xFFFD]"
  by (simp add: TextEncoder_encode_def utf8_def isSurrogate_def TextDecoder_decode_def stripBOM_def utf16_def)

end
